theory Spec2Isabelle
  imports Complex_Main
begin

section \<open>Values of the notebook\<close>

text \<open>
  The notebook \<^verbatim>\<open>UB_matrix.ipynb\<close> computes with numpy arrays of shape (3) and (3,3) holding
  double-precision numbers. The embedding reads every number as a real: rounding is not
  modelled, so each statement below is about the arithmetic the code writes down, carried
  out exactly. What the embedding does keep of the floating-point behaviour is the way numpy
  treats the operations that have no real value: a division by zero, the square root of a
  negative number and the arc cosine of an argument outside [-1, 1] raise nothing; they give
  \<^verbatim>\<open>nan\<close> or \<^verbatim>\<open>inf\<close> (with a warning), and every later sum, product or quotient that
  takes such an entry has a \<^verbatim>\<open>nan\<close> or \<^verbatim>\<open>inf\<close> entry again.

  A vector is a triple, a matrix the triple of its rows.
\<close>

type_synonym vec = "real \<times> real \<times> real"
type_synonym mat = "vec \<times> vec \<times> vec"
type_synonym position = "real \<times> real \<times> real \<times> real"

text \<open>
  The only exceptions the code can raise are numpy's \<^verbatim>\<open>LinAlgError\<close> (from
  \<^verbatim>\<open>np.linalg.inv\<close> on a singular matrix) and Python's \<^verbatim>\<open>ZeroDivisionError\<close> (a Python
  float divided by zero in the last entry of \<^verbatim>\<open>B\<close>). The four other constructors are the error
  names of the specification; no line of the source raises them.
\<close>

datatype error =
    LinAlgError
  | ZeroDivisionError
  | DegenerateCellError
  | InvalidWavelengthError
  | ParallelVectorsError
  | SingularMatrixError

text \<open>
  The outcome of a computation: \<open>Ok x\<close> is a returned value all of whose entries are finite,
  \<open>NaN\<close> is a returned value with a \<^verbatim>\<open>nan\<close> or \<^verbatim>\<open>inf\<close> entry (nothing was raised),
  \<open>Raise e\<close> is an exception.
\<close>

datatype 'a outcome = Ok 'a | NaN | Raise error

definition and_then :: "'a outcome \<Rightarrow> ('a \<Rightarrow> 'b outcome) \<Rightarrow> 'b outcome" where
  "and_then r f = (case r of Ok x \<Rightarrow> f x | NaN \<Rightarrow> NaN | Raise e \<Rightarrow> Raise e)"

definition np_div :: "real \<Rightarrow> real \<Rightarrow> real outcome" where
  "np_div x y = (if y = 0 then NaN else Ok (x / y))"

definition np_sqrt :: "real \<Rightarrow> real outcome" where
  "np_sqrt x = (if x < 0 then NaN else Ok (sqrt x))"

subsection \<open>The trigonometry module\<close>

text \<open>
  Modelled from the spec: the notebook imports \<^verbatim>\<open>sin\<close>, \<^verbatim>\<open>cos\<close> and \<^verbatim>\<open>arccos\<close> from a
  module \<^verbatim>\<open>trigonometry\<close> that is not among the sources. The specification fixes that
  angles are in degrees at the boundary and converted internally to radians, so the three
  functions are the radian ones composed with the conversion. An arc cosine outside
  [-1, 1] is \<^verbatim>\<open>nan\<close>, as numpy's is.
\<close>

definition sin_deg :: "real \<Rightarrow> real" where
  "sin_deg x = sin (x * pi / 180)"

definition cos_deg :: "real \<Rightarrow> real" where
  "cos_deg x = cos (x * pi / 180)"

definition arccos_deg :: "real \<Rightarrow> real outcome" where
  "arccos_deg x = (if - 1 \<le> x \<and> x \<le> 1 then Ok (arccos x * 180 / pi) else NaN)"

subsection \<open>Array operations\<close>

fun dot :: "vec \<Rightarrow> vec \<Rightarrow> real" where
  "dot (a1, a2, a3) (b1, b2, b3) = a1 * b1 + a2 * b2 + a3 * b3"

fun cross :: "vec \<Rightarrow> vec \<Rightarrow> vec" where
  "cross (a1, a2, a3) (b1, b2, b3) =
     (a2 * b3 - a3 * b2, a3 * b1 - a1 * b3, a1 * b2 - a2 * b1)"

definition norm_v :: "vec \<Rightarrow> real" where
  "norm_v v = sqrt (dot v v)"

fun scale :: "real \<Rightarrow> vec \<Rightarrow> vec" where
  "scale s (a1, a2, a3) = (s * a1, s * a2, s * a3)"

fun div_v :: "vec \<Rightarrow> real \<Rightarrow> vec outcome" where
  "div_v (a1, a2, a3) s = (if s = 0 then NaN else Ok (a1 / s, a2 / s, a3 / s))"

fun transpose_m :: "mat \<Rightarrow> mat" where
  "transpose_m ((a11, a12, a13), (a21, a22, a23), (a31, a32, a33)) =
     ((a11, a21, a31), (a12, a22, a32), (a13, a23, a33))"

fun mat_vec :: "mat \<Rightarrow> vec \<Rightarrow> vec" where
  "mat_vec (r1, r2, r3) v = (dot r1 v, dot r2 v, dot r3 v)"

fun matmul :: "mat \<Rightarrow> mat \<Rightarrow> mat" where
  "matmul (r1, r2, r3) B =
     (case transpose_m B of (c1, c2, c3) \<Rightarrow>
        ((dot r1 c1, dot r1 c2, dot r1 c3),
         (dot r2 c1, dot r2 c2, dot r2 c3),
         (dot r3 c1, dot r3 c2, dot r3 c3)))"

fun scale_m :: "real \<Rightarrow> mat \<Rightarrow> mat" where
  "scale_m s (r1, r2, r3) = (scale s r1, scale s r2, scale s r3)"

definition identity :: mat where
  "identity = ((1, 0, 0), (0, 1, 0), (0, 0, 1))"

fun det :: "mat \<Rightarrow> real" where
  "det ((a11, a12, a13), (a21, a22, a23), (a31, a32, a33)) =
     a11 * (a22 * a33 - a23 * a32) - a12 * (a21 * a33 - a23 * a31)
       + a13 * (a21 * a32 - a22 * a31)"

fun adjugate :: "mat \<Rightarrow> mat" where
  "adjugate ((a11, a12, a13), (a21, a22, a23), (a31, a32, a33)) =
     ((a22 * a33 - a23 * a32, a13 * a32 - a12 * a33, a12 * a23 - a13 * a22),
      (a23 * a31 - a21 * a33, a11 * a33 - a13 * a31, a13 * a21 - a11 * a23),
      (a21 * a32 - a22 * a31, a12 * a31 - a11 * a32, a11 * a22 - a12 * a21))"

text \<open>
  \<^verbatim>\<open>np.linalg.inv\<close> factorises its argument in double precision. On a matrix that is not
  singular it returns the inverse. On a singular matrix it raises \<^verbatim>\<open>LinAlgError\<close> only when
  the factorisation meets a pivot that is exactly zero; when rounding hides the singularity
  it returns the matrix the rounded factorisation gives. Which of the two happens on a given
  singular matrix is decided by the rounding, which the reals do not determine, so it is a
  parameter \<open>lu\<close> of the embedding: \<open>lu A = None\<close> when the zero pivot is met, and
  \<open>lu A = Some X\<close> when \<open>X\<close> is returned. Nothing is assumed about \<open>lu\<close>.
\<close>

type_synonym factorisation = "mat \<Rightarrow> mat option"

definition np_linalg_inv :: "factorisation \<Rightarrow> mat \<Rightarrow> mat outcome" where
  "np_linalg_inv lu A =
     (if det A = 0 then (case lu A of None \<Rightarrow> Raise LinAlgError | Some X \<Rightarrow> Ok X)
      else Ok (scale_m (1 / det A) (adjugate A)))"

text \<open>The factorisation that meets the zero pivot on every singular matrix.\<close>

definition exact_pivots :: factorisation where
  "exact_pivots A = None"

section \<open>The unit cell and its reciprocal cell\<close>

text \<open>
  The first code cell, as a function of the six cell parameters it reads: the metric tensor
  \<^verbatim>\<open>M\<close>, \<^verbatim>\<open>Minv = (2*np.pi)**2*np.linalg.inv(M)\<close>, the reciprocal lengths and the
  reciprocal angles.
\<close>

definition metric :: "real \<Rightarrow> real \<Rightarrow> real \<Rightarrow> real \<Rightarrow> real \<Rightarrow> real \<Rightarrow> mat" where
  "metric a b c alpha beta gamma =
     ((a\<^sup>2, a * b * cos_deg gamma, a * c * cos_deg beta),
      (a * b * cos_deg gamma, b\<^sup>2, b * c * cos_deg alpha),
      (a * c * cos_deg beta, b * c * cos_deg alpha, c\<^sup>2))"

type_synonym cell = "real \<times> real \<times> real \<times> real \<times> real \<times> real"

fun reciprocal_of_Minv :: "mat \<Rightarrow> cell outcome" where
  "reciprocal_of_Minv ((m00, m01, m02), (m10, m11, m12), (m20, m21, m22)) =
     and_then (np_sqrt m00) (\<lambda>a_star.
     and_then (np_sqrt m11) (\<lambda>b_star.
     and_then (np_sqrt m22) (\<lambda>c_star.
     and_then (and_then (np_div m12 (b_star * c_star)) arccos_deg) (\<lambda>alpha_star.
     and_then (and_then (np_div m02 (a_star * c_star)) arccos_deg) (\<lambda>beta_star.
     and_then (and_then (np_div m01 (a_star * b_star)) arccos_deg) (\<lambda>gamma_star.
       Ok (a_star, b_star, c_star, alpha_star, beta_star, gamma_star)))))))"

definition reciprocal_cell :: "factorisation \<Rightarrow> cell \<Rightarrow> cell outcome" where
  "reciprocal_cell lu cl =
     (case cl of (a, b, c, alpha, beta, gamma) \<Rightarrow>
        and_then (np_linalg_inv lu (metric a b c alpha beta gamma)) (\<lambda>Mi.
          reciprocal_of_Minv (scale_m ((2 * pi)\<^sup>2) Mi)))"

section \<open>From angles to the Cartesian frame\<close>

text \<open>
  \<open>unit_vector\<close> is the array \<^verbatim>\<open>q_carterian_unit_vector\<close> of \<open>angles2cart\<close>; the division by
  \<^verbatim>\<open>lam\<close> is a numpy division of an array. \<open>angles2cart_at\<close> is the call
  \<^verbatim>\<open>angles2cart(*position, lam)\<close>.
\<close>

definition unit_vector :: "real \<Rightarrow> real \<Rightarrow> real \<Rightarrow> vec" where
  "unit_vector omega chi phi =
     (cos_deg omega * cos_deg chi * cos_deg phi - sin_deg omega * sin_deg phi,
      cos_deg omega * cos_deg chi * sin_deg phi + sin_deg omega * cos_deg phi,
      cos_deg omega * sin_deg chi)"

definition angles2cart :: "real \<Rightarrow> real \<Rightarrow> real \<Rightarrow> real \<Rightarrow> real \<Rightarrow> vec outcome" where
  "angles2cart tth th chi phi lam =
     (let omega = th - tth / 2;
          q_carterian_unit_vector = unit_vector omega chi phi
      in div_v (scale (4 * pi * sin_deg (tth / 2)) q_carterian_unit_vector) lam)"

fun angles2cart_at :: "position \<Rightarrow> real \<Rightarrow> vec outcome" where
  "angles2cart_at (tth, th, chi, phi) lam = angles2cart tth th chi phi lam"

section \<open>The B matrix\<close>

text \<open>
  The third code cell, as a function of the reciprocal constants and of the two direct-cell
  parameters \<^verbatim>\<open>alpha\<close> and \<^verbatim>\<open>c\<close> it reads. The entry \<^verbatim>\<open>2*np.pi/c\<close> divides two Python
  floats, which raises on a zero divisor.
\<close>

definition B_matrix :: "cell \<Rightarrow> real \<Rightarrow> real \<Rightarrow> mat outcome" where
  "B_matrix rc alpha c =
     (case rc of (a_star, b_star, c_star, alpha_star, beta_star, gamma_star) \<Rightarrow>
        if c = 0 then Raise ZeroDivisionError
        else Ok ((a_star, b_star * cos_deg gamma_star, c_star * cos_deg beta_star),
                 (0, b_star * sin_deg gamma_star, - c_star * sin_deg beta_star * cos_deg alpha),
                 (0, 0, 2 * pi / c)))"

section \<open>The orientation matrix\<close>

text \<open>
  \<^verbatim>\<open>np.stack([t1, t2, t3]).T\<close> is the matrix whose columns are \<^verbatim>\<open>t1\<close>, \<^verbatim>\<open>t2\<close>, \<^verbatim>\<open>t3\<close>.
  The two divisions by a norm are numpy divisions: a zero norm gives \<^verbatim>\<open>nan\<close> entries.
  The assignments are read as real vectors.
\<close>

definition get_T_mat :: "vec \<Rightarrow> vec \<Rightarrow> mat outcome" where
  "get_T_mat vec1 vec2 =
     and_then (div_v vec1 (norm_v vec1)) (\<lambda>t1.
       let crs = cross vec1 vec2 in
       and_then (div_v crs (norm_v crs)) (\<lambda>t3.
         let t2 = cross t3 t1 in
         Ok (transpose_m (t1, t2, t3))))"

definition get_U :: "position \<Rightarrow> vec \<Rightarrow> position \<Rightarrow> vec \<Rightarrow> mat \<Rightarrow> real \<Rightarrow> mat outcome" where
  "get_U position_1 assignment_1 position_2 assignment_2 B lam =
     and_then (angles2cart_at position_1 lam) (\<lambda>q1.
     and_then (angles2cart_at position_2 lam) (\<lambda>q2.
     and_then (get_T_mat q1 q2) (\<lambda>T_pos.
     and_then (get_T_mat (mat_vec B assignment_1) (mat_vec B assignment_2)) (\<lambda>T_ass.
       Ok (matmul T_pos (transpose_m T_ass))))))"

text \<open>The lines after \<^verbatim>\<open>get_U\<close>: \<^verbatim>\<open>UB = np.matmul(U, B)\<close> and \<^verbatim>\<open>invUB = np.linalg.inv(UB)\<close>.\<close>

definition get_invUB ::
  "factorisation \<Rightarrow> position \<Rightarrow> vec \<Rightarrow> position \<Rightarrow> vec \<Rightarrow> mat \<Rightarrow> real \<Rightarrow> mat outcome" where
  "get_invUB lu position_1 assignment_1 position_2 assignment_2 B lam =
     and_then (get_U position_1 assignment_1 position_2 assignment_2 B lam) (\<lambda>U.
       np_linalg_inv lu (matmul U B))"

definition get_HKL :: "position \<Rightarrow> mat \<Rightarrow> real \<Rightarrow> vec outcome" where
  "get_HKL position invUB lam =
     and_then (angles2cart_at position lam) (\<lambda>q. Ok (mat_vec invUB q))"

section \<open>Auxiliary notions\<close>

text \<open>
  Two abbreviations used in the proofs, not functions of the notebook: the normalised vector
  \<^verbatim>\<open>v/np.linalg.norm(v)\<close> where the norm is not zero, and the matrix \<open>get_T_mat\<close> returns
  where it divides by no zero.
\<close>

definition unit_of :: "vec \<Rightarrow> vec" where
  "unit_of v = scale (1 / norm_v v) v"

definition triad :: "vec \<Rightarrow> vec \<Rightarrow> mat" where
  "triad v1 v2 =
     transpose_m (unit_of v1, cross (unit_of (cross v1 v2)) (unit_of v1), unit_of (cross v1 v2))"

text \<open>
  A matrix is positive definite when its quadratic form is positive on every nonzero vector.
\<close>

definition pos_def :: "mat \<Rightarrow> bool" where
  "pos_def A = (\<forall>x. x \<noteq> (0, 0, 0) \<longrightarrow> 0 < dot x (mat_vec A x))"

text \<open>
  Further abbreviations of the proofs: the inverse \<^verbatim>\<open>np.linalg.inv\<close> returns for a matrix
  that is not singular, the metric tensor of a cell given as a tuple, and the reciprocal
  constants read off a matrix \<open>Minv\<close> whose entries allow it.
\<close>

definition inv_m :: "mat \<Rightarrow> mat" where
  "inv_m A = scale_m (1 / det A) (adjugate A)"

fun metric_of :: "cell \<Rightarrow> mat" where
  "metric_of (a, b, c, alpha, beta, gamma) = metric a b c alpha beta gamma"

definition cell_of :: "mat \<Rightarrow> cell" where
  "cell_of N =
     (case N of ((n00, n01, n02), (n10, n11, n12), (n20, n21, n22)) \<Rightarrow>
        (sqrt n00, sqrt n11, sqrt n22,
         arccos (n12 / (sqrt n11 * sqrt n22)) * 180 / pi,
         arccos (n02 / (sqrt n00 * sqrt n22)) * 180 / pi,
         arccos (n01 / (sqrt n00 * sqrt n11)) * 180 / pi))"

text \<open>
  The Taylor polynomial of the sine up to degree 7, used to bound the sines of the example.
\<close>

definition sin_poly :: "real \<Rightarrow> real" where
  "sin_poly x = x - x ^ 3 / 6 + x ^ 5 / 120 - x ^ 7 / 5040"

section \<open>Outcomes\<close>

lemma and_then_Ok [simp]: "and_then (Ok x) f = f x"
  by (simp add: and_then_def)

lemma and_then_NaN [simp]: "and_then NaN f = NaN"
  by (simp add: and_then_def)

lemma and_then_Raise [simp]: "and_then (Raise e) f = Raise e"
  by (simp add: and_then_def)

lemma sin_deg_0 [simp]: "sin_deg 0 = 0"
  by (simp add: sin_deg_def)

lemma cos_deg_0 [simp]: "cos_deg 0 = 1"
  by (simp add: cos_deg_def)

lemma sin_deg_90 [simp]: "sin_deg 90 = 1"
  by (simp add: sin_deg_def)

lemma cos_deg_90 [simp]: "cos_deg 90 = 0"
  by (simp add: cos_deg_def)

section \<open>Vectors and matrices\<close>

lemma transpose_transpose [simp]: "transpose_m (transpose_m A) = A"
  by (cases A rule: transpose_m.cases) simp

lemma dot_commute: "dot a b = dot b a"
  by (cases a, cases b) (simp add: mult.commute)

lemma dot_cross_left [simp]: "dot a (cross a b) = 0"
  by (cases a, cases b) (simp add: algebra_simps)

lemma dot_cross_right [simp]: "dot b (cross a b) = 0"
  by (cases a, cases b) (simp add: algebra_simps)

lemma dot_cross_left' [simp]: "dot (cross a b) a = 0"
  by (cases a, cases b) (simp add: algebra_simps)

lemma dot_cross_right' [simp]: "dot (cross a b) b = 0"
  by (cases a, cases b) (simp add: algebra_simps)

lemma lagrange: "dot (cross a b) (cross a b) = dot a a * dot b b - (dot a b)\<^sup>2"
  by (cases a, cases b) (simp add: algebra_simps power2_eq_square)

lemma det_rows: "det (a, b, c) = dot a (cross b c)"
  by (cases a, cases b, cases c) (simp add: algebra_simps)

lemma det_transpose [simp]: "det (transpose_m A) = det A"
  by (cases A rule: transpose_m.cases) (simp add: algebra_simps)

lemma gram: "matmul (a, b, c) (transpose_m (a, b, c)) =
   ((dot a a, dot a b, dot a c), (dot b a, dot b b, dot b c), (dot c a, dot c b, dot c c))"
  by simp

lemma dot_triple: "dot a (cross (cross c a) c) = dot a a * dot c c - (dot a c)\<^sup>2"
  by (cases a, cases c) (simp add: algebra_simps power2_eq_square)

lemma dot_self_nonneg [simp]: "0 \<le> dot v v"
  by (cases v) simp

lemma norm_v_nonneg [simp]: "0 \<le> norm_v v"
  by (simp add: norm_v_def)

lemma norm_v_sq [simp]: "(norm_v v)\<^sup>2 = dot v v"
  by (simp add: norm_v_def)

lemma dot_self_eq_0: "dot v v = 0 \<longleftrightarrow> v = (0, 0, 0)"
  by (cases v) (auto simp: sum_squares_eq_zero_iff add_nonneg_eq_0_iff)

lemma norm_v_eq_0 [simp]: "norm_v v = 0 \<longleftrightarrow> v = (0, 0, 0)"
  by (simp add: norm_v_def dot_self_eq_0)

lemma div_v_Ok: "s \<noteq> 0 \<Longrightarrow> div_v v s = Ok (scale (1 / s) v)"
  by (cases v) simp

lemma div_v_NaN [simp]: "div_v v 0 = NaN"
  by (cases v) simp

lemma dot_scale: "dot (scale s a) (scale t b) = s * t * dot a b"
  by (cases a, cases b) (simp add: algebra_simps)

lemma cross_scale: "cross (scale s a) (scale t b) = scale (s * t) (cross a b)"
  by (cases a, cases b) (simp add: algebra_simps)

lemma dot_unit_of: "v \<noteq> (0, 0, 0) \<Longrightarrow> dot (unit_of v) (unit_of v) = 1"
proof -
  assume "v \<noteq> (0, 0, 0)"
  then have "dot v v \<noteq> 0" by (simp add: dot_self_eq_0)
  moreover have "norm_v v * norm_v v = dot v v"
    using norm_v_sq [of v] by (simp add: power2_eq_square)
  ultimately show ?thesis
    by (simp add: unit_of_def dot_scale)
qed

lemma get_T_mat_Ok:
  assumes "v1 \<noteq> (0, 0, 0)" "cross v1 v2 \<noteq> (0, 0, 0)"
  shows "get_T_mat v1 v2 =
    Ok (transpose_m (unit_of v1, cross (unit_of (cross v1 v2)) (unit_of v1), unit_of (cross v1 v2)))"
  using assms by (simp add: get_T_mat_def div_v_Ok unit_of_def Let_def)

lemma triad_gram:
  assumes "dot t1 t1 = 1" "dot t3 t3 = 1" "dot t1 t3 = 0"
  shows "matmul (t1, cross t3 t1, t3) (transpose_m (t1, cross t3 t1, t3)) = identity"
  using assms unfolding gram by (simp add: identity_def lagrange dot_commute)

lemma triad_det:
  assumes "dot t1 t1 = 1" "dot t3 t3 = 1" "dot t1 t3 = 0"
  shows "det (t1, cross t3 t1, t3) = 1"
  using assms by (simp add: det_rows dot_triple)

lemma unit_of_orth: "dot (unit_of v1) (unit_of (cross v1 v2)) = 0"
  by (simp add: unit_of_def dot_scale)

lemma matmul_assoc: "matmul (matmul A B) C = matmul A (matmul B C)"
  by (cases A rule: transpose_m.cases, cases B rule: transpose_m.cases,
      cases C rule: transpose_m.cases) (simp add: algebra_simps)

lemma matmul_identity_left [simp]: "matmul identity A = A"
  by (cases A rule: transpose_m.cases) (simp add: identity_def)

lemma matmul_identity_right [simp]: "matmul A identity = A"
  by (cases A rule: transpose_m.cases) (simp add: identity_def)

lemma transpose_matmul: "transpose_m (matmul A B) = matmul (transpose_m B) (transpose_m A)"
  by (cases A rule: transpose_m.cases, cases B rule: transpose_m.cases)
     (simp add: algebra_simps)

lemma det_matmul: "det (matmul A B) = det A * det B"
  by (cases A rule: transpose_m.cases, cases B rule: transpose_m.cases)
     (simp add: algebra_simps)

lemma det_identity [simp]: "det identity = 1"
  by (simp add: identity_def)

lemma matmul_adjugate: "matmul A (scale_m s (adjugate A)) = scale_m (s * det A) identity"
  by (cases A rule: transpose_m.cases) (simp add: identity_def algebra_simps)

lemma adjugate_matmul: "matmul (scale_m s (adjugate A)) A = scale_m (s * det A) identity"
  by (cases A rule: transpose_m.cases) (simp add: identity_def algebra_simps)

lemma scale_m_one [simp]: "scale_m 1 A = A"
  by (cases A rule: transpose_m.cases) simp

lemma mat_vec_matmul: "mat_vec (matmul A B) v = mat_vec A (mat_vec B v)"
  by (cases A rule: transpose_m.cases, cases B rule: transpose_m.cases, cases v)
     (simp add: algebra_simps)

lemma mat_vec_identity [simp]: "mat_vec identity v = v"
  by (cases v) (simp add: identity_def)

lemma right_inverse:
  assumes "det A \<noteq> 0"
  shows "matmul A (scale_m (1 / det A) (adjugate A)) = identity"
  using assms by (simp add: matmul_adjugate)

lemma left_inverse:
  assumes "det A \<noteq> 0"
  shows "matmul (scale_m (1 / det A) (adjugate A)) A = identity"
  using assms by (simp add: adjugate_matmul)

lemma orthogonal_swap:
  assumes "matmul (transpose_m A) A = identity"
  shows "matmul A (transpose_m A) = identity"
proof -
  have "det (matmul (transpose_m A) A) = 1"
    using assms by simp
  then have d: "det A \<noteq> 0"
    by (auto simp: det_matmul)
  let ?R = "scale_m (1 / det A) (adjugate A)"
  have r: "matmul A ?R = identity"
    using d by (rule right_inverse)
  have "transpose_m A = matmul (transpose_m A) (matmul A ?R)"
    by (simp add: r)
  also have "\<dots> = matmul (matmul (transpose_m A) A) ?R"
    by (simp add: matmul_assoc)
  also have "\<dots> = ?R"
    by (simp add: assms)
  finally show ?thesis
    using r by simp
qed

lemma rotation_product:
  assumes "matmul (transpose_m P) P = identity" "det P = 1"
      and "matmul (transpose_m Q) Q = identity" "det Q = 1"
  shows "matmul (transpose_m (matmul P (transpose_m Q))) (matmul P (transpose_m Q)) = identity"
    and "det (matmul P (transpose_m Q)) = 1"
proof -
  have "matmul (transpose_m (matmul P (transpose_m Q))) (matmul P (transpose_m Q))
      = matmul Q (matmul (matmul (transpose_m P) P) (transpose_m Q))"
    by (simp add: transpose_matmul matmul_assoc)
  also have "\<dots> = matmul Q (transpose_m Q)"
    by (simp add: assms(1))
  also have "\<dots> = identity"
    using assms(3) by (rule orthogonal_swap)
  finally show "matmul (transpose_m (matmul P (transpose_m Q))) (matmul P (transpose_m Q)) = identity" .
  show "det (matmul P (transpose_m Q)) = 1"
    by (simp add: det_matmul assms)
qed


lemma get_T_mat_triad:
  assumes "v1 \<noteq> (0, 0, 0)" "cross v1 v2 \<noteq> (0, 0, 0)"
  shows "get_T_mat v1 v2 = Ok (triad v1 v2)"
  unfolding triad_def using assms by (rule get_T_mat_Ok)

lemma cross_zero_left [simp]: "cross (0, 0, 0) v = (0, 0, 0)"
  by (cases v) simp

lemma cross_zero_right [simp]: "cross v (0, 0, 0) = (0, 0, 0)"
  by (cases v) simp

lemma cross_nonzero_left: "cross v1 v2 \<noteq> (0, 0, 0) \<Longrightarrow> v1 \<noteq> (0, 0, 0)"
  by auto

lemma triad_rotation:
  assumes "cross v1 v2 \<noteq> (0, 0, 0)"
  shows "matmul (transpose_m (triad v1 v2)) (triad v1 v2) = identity" and "det (triad v1 v2) = 1"
proof -
  let ?t1 = "unit_of v1" and ?t3 = "unit_of (cross v1 v2)"
  have v1: "v1 \<noteq> (0, 0, 0)"
    using assms by (rule cross_nonzero_left)
  have u1: "dot ?t1 ?t1 = 1" and u3: "dot ?t3 ?t3 = 1"
    using v1 assms by (simp_all add: dot_unit_of)
  have o: "dot ?t1 ?t3 = 0"
    by (rule unit_of_orth)
  show "matmul (transpose_m (triad v1 v2)) (triad v1 v2) = identity"
    using triad_gram [OF u1 u3 o] by (simp add: triad_def)
  show "det (triad v1 v2) = 1"
    using triad_det [OF u1 u3 o] by (simp add: triad_def)
qed

lemma get_U_Ok:
  assumes "angles2cart_at p1 lam = Ok q1" "angles2cart_at p2 lam = Ok q2"
      and "cross q1 q2 \<noteq> (0, 0, 0)"
      and "cross (mat_vec B a1) (mat_vec B a2) \<noteq> (0, 0, 0)"
  shows "get_U p1 a1 p2 a2 B lam =
     Ok (matmul (triad q1 q2) (transpose_m (triad (mat_vec B a1) (mat_vec B a2))))"
  using assms by (simp add: get_U_def get_T_mat_triad cross_nonzero_left)

lemma dot_unit_of_self: "dot (unit_of v) v = norm_v v"
proof (cases "v = (0, 0, 0)")
  case True
  then show ?thesis by (simp add: unit_of_def norm_v_def)
next
  case False
  then have n: "norm_v v \<noteq> 0" by simp
  have "norm_v v * norm_v v = dot v v"
    using norm_v_sq [of v] by (simp add: power2_eq_square)
  moreover have "dot (unit_of v) v = (1 / norm_v v) * dot v v"
    using dot_scale [of "1 / norm_v v" v 1 v] by (cases v) (simp add: unit_of_def)
  ultimately have "dot (unit_of v) v = (1 / norm_v v) * (norm_v v * norm_v v)"
    by simp
  with n show ?thesis by simp
qed

lemma dot_scale_left: "dot (scale s a) b = s * dot a b"
  by (cases a, cases b) (simp add: algebra_simps)

lemma dot_unit_of_cross: "dot (unit_of (cross v w)) v = 0"
  by (simp add: unit_of_def dot_scale_left)

lemma dot_cross_unit_of: "dot (cross w (unit_of v)) v = 0"
  by (cases w, cases v) (simp add: unit_of_def algebra_simps)

lemma mat_vec_columns: "mat_vec (transpose_m (a, b, c)) (x, 0, 0) = scale x a"
  by (cases a, cases b, cases c) simp

lemma scale_scale: "scale s (scale t v) = scale (s * t) v"
  by (cases v) (simp add: algebra_simps)

lemma triad_first:
  "mat_vec (matmul (triad q1 q2) (transpose_m (triad c1 c2))) c1 = scale (norm_v c1 / norm_v q1) q1"
proof -
  have "mat_vec (transpose_m (triad c1 c2)) c1 = (norm_v c1, 0, 0)"
    by (simp add: triad_def dot_unit_of_self dot_cross_unit_of dot_unit_of_cross)
  then show ?thesis
    by (simp add: mat_vec_matmul) (simp add: triad_def mat_vec_columns unit_of_def scale_scale)
qed

lemma norm_v_scale: "norm_v (scale s v) = \<bar>s\<bar> * norm_v v"
proof -
  have "dot (scale s v) (scale s v) = s\<^sup>2 * dot v v"
    by (simp add: dot_scale power2_eq_square)
  then show ?thesis
    by (simp add: norm_v_def real_sqrt_mult)
qed

lemma unit_of_scale: "0 < s \<Longrightarrow> unit_of (scale s v) = unit_of v"
  by (simp add: unit_of_def norm_v_scale scale_scale)

lemma scale_eq_zero: "scale s v = (0, 0, 0) \<longleftrightarrow> s = 0 \<or> v = (0, 0, 0)"
  by (cases v) auto

lemma triad_scale: "0 < s \<Longrightarrow> 0 < t \<Longrightarrow> triad (scale s v1) (scale t v2) = triad v1 v2"
  by (simp add: triad_def cross_scale unit_of_scale)

section \<open>A position with no scattering angle\<close>

text \<open>
  Claim C9. For every angular position with \<open>two_theta = 0\<close> and every nonzero wavelength,
  \<open>angles2cart\<close> returns the zero vector whatever theta, chi and phi are, and so
  \<open>get_HKL\<close> maps every such position to \<open>(0, 0, 0)\<close>, for every matrix \<open>invUB\<close>.
\<close>

theorem C9_zero_two_theta:
  assumes "lam \<noteq> 0"
  shows "angles2cart 0 th chi phi lam = Ok (0, 0, 0)
       \<and> get_HKL (0, th, chi, phi) invUB lam = Ok (0, 0, 0)"
proof -
  have q: "angles2cart 0 th chi phi lam = Ok (0, 0, 0)"
    using assms by (simp add: angles2cart_def unit_vector_def)
  obtain r1 r2 r3 where m: "invUB = (r1, r2, r3)"
    by (cases invUB) auto
  have "mat_vec invUB (0, 0, 0) = (0, 0, 0)"
    unfolding m by (cases r1, cases r2, cases r3) simp
  with q show ?thesis
    by (simp add: get_HKL_def)
qed

theorem C9_zero_two_theta_witness:
  "(1::real) \<noteq> 0
   \<and> angles2cart 0 90 90 0 1 = Ok (0, 0, 0)
   \<and> get_HKL (0, 90, 90, 0) ((1, 2, 3), (4, 5, 6), (7, 8, 10)) 1 = Ok (0, 0, 0)"
  using C9_zero_two_theta [of 1 90 90 0 "((1, 2, 3), (4, 5, 6), (7, 8, 10))"] by simp

section \<open>Concrete positions\<close>

lemma sin_deg_minus [simp]: "sin_deg (- x) = - sin_deg x"
  by (simp add: sin_deg_def)

lemma cos_deg_minus [simp]: "cos_deg (- x) = cos_deg x"
  by (simp add: cos_deg_def)

lemma angles2cart_a: "angles2cart 180 90 0 0 1 = Ok (4 * pi, 0, 0)"
  by (simp add: angles2cart_def unit_vector_def)

lemma angles2cart_b: "angles2cart 180 90 90 0 1 = Ok (0, 0, 4 * pi)"
  by (simp add: angles2cart_def unit_vector_def)

lemma position_a: "angles2cart_at (180, 90, 0, 0) 1 = Ok (4 * pi, 0, 0)"
  by (simp add: angles2cart_a)

lemma position_b: "angles2cart_at (180, 90, 90, 0) 1 = Ok (0, 0, 4 * pi)"
  by (simp add: angles2cart_b)

lemma position_ab: "cross (4 * pi, 0, 0) (0, 0, 4 * pi) \<noteq> (0, 0, 0)"
  by simp

lemma assignment_ab: "cross (mat_vec identity (1, 0, 0)) (mat_vec identity (0, 1, 0)) \<noteq> (0, 0, 0)"
  by simp

section \<open>The triad of two vectors\<close>

text \<open>
  Claim C5. For every pair of vectors \<open>v1\<close>, \<open>v2\<close> with nonzero norms and nonzero cross
  product, \<open>get_T_mat\<close> returns a matrix \<open>T\<close> whose columns are mutually orthogonal and of
  unit norm, that is \<open>T\<^sup>t T = I\<close>, and whose determinant is \<open>+1\<close>.
\<close>

theorem C5_triad_orthonormal:
  assumes "norm_v v1 \<noteq> 0" and "norm_v v2 \<noteq> 0" and "cross v1 v2 \<noteq> (0, 0, 0)"
  shows "\<exists>T. get_T_mat v1 v2 = Ok T \<and> matmul (transpose_m T) T = identity \<and> det T = 1"
proof -
  let ?t1 = "unit_of v1" and ?t3 = "unit_of (cross v1 v2)"
  let ?T = "transpose_m (?t1, cross ?t3 ?t1, ?t3)"
  from assms have v1: "v1 \<noteq> (0, 0, 0)" and cr: "cross v1 v2 \<noteq> (0, 0, 0)"
    by simp_all
  have u1: "dot ?t1 ?t1 = 1" and u3: "dot ?t3 ?t3 = 1"
    using v1 cr by (simp_all add: dot_unit_of)
  have o: "dot ?t1 ?t3 = 0"
    by (rule unit_of_orth)
  have "get_T_mat v1 v2 = Ok ?T"
    using v1 cr by (rule get_T_mat_Ok)
  moreover have "matmul (transpose_m ?T) ?T = identity"
    using triad_gram [OF u1 u3 o] by simp
  moreover have "det ?T = 1"
    using triad_det [OF u1 u3 o] by simp
  ultimately show ?thesis by blast
qed

theorem C5_triad_orthonormal_witness:
  "norm_v (1, 0, 0) \<noteq> 0 \<and> norm_v (1, 1, 0) \<noteq> 0 \<and> cross (1, 0, 0) (1, 1, 0) \<noteq> (0, 0, 0)
   \<and> (\<exists>T. get_T_mat (1, 0, 0) (1, 1, 0) = Ok T \<and> matmul (transpose_m T) T = identity \<and> det T = 1)"
proof -
  have h1: "norm_v (1, 0, 0) \<noteq> 0" and h2: "norm_v (1, 1, 0) \<noteq> 0"
    and h3: "cross (1, 0, 0) (1, 1, 0) \<noteq> (0, 0, 0)"
    by simp_all
  from C5_triad_orthonormal [OF h1 h2 h3] h1 h2 h3 show ?thesis
    by blast
qed

section \<open>The orientation matrix of two reflections\<close>

text \<open>
  Claim C2. For every pair of reflections whose measured Cartesian vectors \<open>q1\<close>, \<open>q2\<close>
  (from \<open>angles2cart\<close>) are not parallel and whose assigned Cartesian vectors
  \<open>c1 = B assignment_1\<close>, \<open>c2 = B assignment_2\<close> are not parallel, \<open>get_U\<close> returns a matrix
  \<open>U\<close> that maps \<open>c1\<close> to a positive multiple of \<open>q1\<close>: the direction of the first reflection
  is reproduced exactly.
\<close>

theorem C2_first_reflection:
  assumes "angles2cart_at position_1 lam = Ok q1"
      and "angles2cart_at position_2 lam = Ok q2"
      and "cross q1 q2 \<noteq> (0, 0, 0)"
      and "cross (mat_vec B assignment_1) (mat_vec B assignment_2) \<noteq> (0, 0, 0)"
  shows "\<exists>U k. get_U position_1 assignment_1 position_2 assignment_2 B lam = Ok U
           \<and> 0 < k \<and> mat_vec U (mat_vec B assignment_1) = scale k q1"
proof -
  let ?c1 = "mat_vec B assignment_1" and ?c2 = "mat_vec B assignment_2"
  let ?U = "matmul (triad q1 q2) (transpose_m (triad ?c1 ?c2))"
  have "q1 \<noteq> (0, 0, 0)" and "?c1 \<noteq> (0, 0, 0)"
    using assms(3,4) by (auto dest: cross_nonzero_left)
  then have "0 < norm_v q1" and "0 < norm_v ?c1"
    by (simp_all add: less_le)
  then have "0 < norm_v ?c1 / norm_v q1"
    by simp
  moreover have "get_U position_1 assignment_1 position_2 assignment_2 B lam = Ok ?U"
    using assms by (rule get_U_Ok)
  moreover have "mat_vec ?U ?c1 = scale (norm_v ?c1 / norm_v q1) q1"
    by (rule triad_first)
  ultimately show ?thesis by blast
qed

theorem C2_first_reflection_witness:
  "angles2cart_at (180, 90, 0, 0) 1 = Ok (4 * pi, 0, 0)
   \<and> angles2cart_at (180, 90, 90, 0) 1 = Ok (0, 0, 4 * pi)
   \<and> cross (4 * pi, 0, 0) (0, 0, 4 * pi) \<noteq> (0, 0, 0)
   \<and> cross (mat_vec identity (1, 0, 0)) (mat_vec identity (0, 1, 0)) \<noteq> (0, 0, 0)
   \<and> (\<exists>U k. get_U (180, 90, 0, 0) (1, 0, 0) (180, 90, 90, 0) (0, 1, 0) identity 1 = Ok U
          \<and> 0 < k \<and> mat_vec U (mat_vec identity (1, 0, 0)) = scale k (4 * pi, 0, 0))"
  using C2_first_reflection [OF position_a position_b position_ab assignment_ab]
    position_a position_b position_ab assignment_ab
  by blast

text \<open>
  Claim C6. For every well-posed input of \<open>get_U\<close> (the two measured Cartesian vectors
  nonzero and not parallel, the two assigned Cartesian vectors nonzero and not parallel),
  the matrix \<open>U\<close> it returns is a proper rotation: \<open>U\<^sup>t U = I\<close> and \<open>det U = +1\<close>.
\<close>

theorem C6_proper_rotation:
  assumes "angles2cart_at position_1 lam = Ok q1"
      and "angles2cart_at position_2 lam = Ok q2"
      and "q1 \<noteq> (0, 0, 0)" and "q2 \<noteq> (0, 0, 0)" and "cross q1 q2 \<noteq> (0, 0, 0)"
      and "mat_vec B assignment_1 \<noteq> (0, 0, 0)" and "mat_vec B assignment_2 \<noteq> (0, 0, 0)"
      and "cross (mat_vec B assignment_1) (mat_vec B assignment_2) \<noteq> (0, 0, 0)"
  shows "\<exists>U. get_U position_1 assignment_1 position_2 assignment_2 B lam = Ok U
           \<and> matmul (transpose_m U) U = identity \<and> det U = 1"
proof -
  let ?P = "triad q1 q2"
  let ?Q = "triad (mat_vec B assignment_1) (mat_vec B assignment_2)"
  have "get_U position_1 assignment_1 position_2 assignment_2 B lam
      = Ok (matmul ?P (transpose_m ?Q))"
    using assms(1,2,5,8) by (rule get_U_Ok)
  moreover have "matmul (transpose_m (matmul ?P (transpose_m ?Q))) (matmul ?P (transpose_m ?Q)) = identity"
    and "det (matmul ?P (transpose_m ?Q)) = 1"
    using triad_rotation [OF assms(5)] triad_rotation [OF assms(8)]
    by (auto intro: rotation_product)
  ultimately show ?thesis by blast
qed

theorem C6_proper_rotation_witness:
  "angles2cart_at (180, 90, 0, 0) 1 = Ok (4 * pi, 0, 0)
   \<and> angles2cart_at (180, 90, 90, 0) 1 = Ok (0, 0, 4 * pi)
   \<and> (4 * pi, 0, 0) \<noteq> (0, 0, 0) \<and> (0, 0, 4 * pi) \<noteq> (0 :: real, 0 :: real, 0 :: real)
   \<and> cross (4 * pi, 0, 0) (0, 0, 4 * pi) \<noteq> (0, 0, 0)
   \<and> mat_vec identity (1, 0, 0) \<noteq> (0, 0, 0) \<and> mat_vec identity (0, 1, 0) \<noteq> (0, 0, 0)
   \<and> cross (mat_vec identity (1, 0, 0)) (mat_vec identity (0, 1, 0)) \<noteq> (0, 0, 0)
   \<and> (\<exists>U. get_U (180, 90, 0, 0) (1, 0, 0) (180, 90, 90, 0) (0, 1, 0) identity 1 = Ok U
          \<and> matmul (transpose_m U) U = identity \<and> det U = 1)"
proof -
  have n1: "(4 * pi, 0, 0) \<noteq> (0 :: real, 0 :: real, 0 :: real)"
    and n2: "(0, 0, 4 * pi) \<noteq> (0 :: real, 0 :: real, 0 :: real)"
    and n3: "mat_vec identity (1, 0, 0) \<noteq> (0, 0, 0)"
    and n4: "mat_vec identity (0, 1, 0) \<noteq> (0, 0, 0)"
    by simp_all
  from C6_proper_rotation [OF position_a position_b n1 n2 position_ab n3 n4 assignment_ab]
    position_a position_b position_ab assignment_ab n1 n2 n3 n4
  show ?thesis by blast
qed

text \<open>
  Claim C10. \<open>get_T_mat\<close> does not change when either input is multiplied by a positive
  number: for all vectors \<open>v1\<close>, \<open>v2\<close> with nonzero norms and nonzero cross product and all
  \<open>s > 0\<close>, \<open>t > 0\<close>, \<open>get_T_mat (s v1) (t v2) = get_T_mat v1 v2\<close>. Consequently the matrix
  of \<open>get_U\<close> depends on the directions of the measured and of the assigned vectors only:
  two inputs whose measured vectors and whose assigned vectors differ by positive factors
  give the same \<open>U\<close>.
\<close>

theorem C10_scale_invariance:
  assumes "norm_v v1 \<noteq> 0" and "norm_v v2 \<noteq> 0" and "cross v1 v2 \<noteq> (0, 0, 0)"
      and "0 < s" and "0 < t"
  shows "get_T_mat (scale s v1) (scale t v2) = get_T_mat v1 v2
       \<and> (angles2cart_at p1 lam = Ok v1 \<and> angles2cart_at p2 lam = Ok v2
            \<and> angles2cart_at p1' lam' = Ok (scale s v1)
            \<and> angles2cart_at p2' lam' = Ok (scale t v2)
            \<and> cross (mat_vec B a1) (mat_vec B a2) \<noteq> (0, 0, 0)
            \<and> 0 < s' \<and> 0 < t'
            \<and> mat_vec B' a1' = scale s' (mat_vec B a1)
            \<and> mat_vec B' a2' = scale t' (mat_vec B a2)
          \<longrightarrow> get_U p1' a1' p2' a2' B' lam' = get_U p1 a1 p2 a2 B lam)"
proof -
  have st: "s * t \<noteq> 0"
    using assms(4,5) by simp
  have v1: "v1 \<noteq> (0, 0, 0)"
    using assms(1) by simp
  have sv1: "scale s v1 \<noteq> (0, 0, 0)"
    using v1 assms(4) by (simp add: scale_eq_zero)
  have scr: "cross (scale s v1) (scale t v2) \<noteq> (0, 0, 0)"
    using assms(3) st by (simp add: cross_scale scale_eq_zero)
  have T: "get_T_mat (scale s v1) (scale t v2) = get_T_mat v1 v2"
    using sv1 scr v1 assms(3,4,5) by (simp add: get_T_mat_triad triad_scale)
  have U: "get_U p1' a1' p2' a2' B' lam' = get_U p1 a1 p2 a2 B lam"
    if h: "angles2cart_at p1 lam = Ok v1" "angles2cart_at p2 lam = Ok v2"
      "angles2cart_at p1' lam' = Ok (scale s v1)" "angles2cart_at p2' lam' = Ok (scale t v2)"
      "cross (mat_vec B a1) (mat_vec B a2) \<noteq> (0, 0, 0)" "0 < s'" "0 < t'"
      "mat_vec B' a1' = scale s' (mat_vec B a1)" "mat_vec B' a2' = scale t' (mat_vec B a2)"
  proof -
    have "s' * t' \<noteq> 0"
      using h(6,7) by simp
    then have c': "cross (mat_vec B' a1') (mat_vec B' a2') \<noteq> (0, 0, 0)"
      using h(5) by (simp add: h(8,9) cross_scale scale_eq_zero)
    have "get_U p1' a1' p2' a2' B' lam'
        = Ok (matmul (triad (scale s v1) (scale t v2))
               (transpose_m (triad (mat_vec B' a1') (mat_vec B' a2'))))"
      using h(3,4) scr c' by (rule get_U_Ok)
    also have "\<dots> = Ok (matmul (triad v1 v2) (transpose_m (triad (mat_vec B a1) (mat_vec B a2))))"
      using assms(4,5) h(6,7) by (simp add: h(8,9) triad_scale)
    also have "\<dots> = get_U p1 a1 p2 a2 B lam"
      using h(1,2) assms(3) h(5) by (rule get_U_Ok [symmetric])
    finally show ?thesis .
  qed
  from T U show ?thesis by blast
qed

lemma position_a2: "angles2cart_at (180, 90, 0, 0) 2 = Ok (scale (1 / 2) (4 * pi, 0, 0))"
  by (simp add: angles2cart_def unit_vector_def)

lemma position_b2: "angles2cart_at (180, 90, 90, 0) 2 = Ok (scale (1 / 2) (0, 0, 4 * pi))"
  by (simp add: angles2cart_def unit_vector_def)

theorem C10_scale_invariance_witness:
  "norm_v (4 * pi, 0, 0) \<noteq> 0 \<and> norm_v (0, 0, 4 * pi) \<noteq> 0
   \<and> cross (4 * pi, 0, 0) (0, 0, 4 * pi) \<noteq> (0, 0, 0) \<and> (0 :: real) < 1 / 2
   \<and> get_T_mat (scale (1 / 2) (4 * pi, 0, 0)) (scale (1 / 2) (0, 0, 4 * pi))
       = get_T_mat (4 * pi, 0, 0) (0, 0, 4 * pi)
   \<and> get_U (180, 90, 0, 0) (3, 0, 0) (180, 90, 90, 0) (0, 5, 0) identity 2
       = get_U (180, 90, 0, 0) (1, 0, 0) (180, 90, 90, 0) (0, 1, 0) identity 1"
proof -
  have n1: "norm_v (4 * pi, 0, 0) \<noteq> 0" and n2: "norm_v (0, 0, 4 * pi) \<noteq> 0"
    and h: "(0 :: real) < 1 / 2"
    by simp_all
  have a: "cross (mat_vec identity (1, 0, 0)) (mat_vec identity (0, 1, 0)) \<noteq> (0, 0, 0)
      \<and> (0 :: real) < 3 \<and> (0 :: real) < 5
      \<and> mat_vec identity (3, 0, 0) = scale 3 (mat_vec identity (1, 0, 0))
      \<and> mat_vec identity (0, 5, 0) = scale 5 (mat_vec identity (0, 1, 0))"
    by simp
  from C10_scale_invariance [OF n1 n2 position_ab h h,
      of "(180, 90, 0, 0)" 1 "(180, 90, 90, 0)" "(180, 90, 0, 0)" 2 "(180, 90, 90, 0)"
         identity "(1, 0, 0)" "(0, 1, 0)" 3 5 identity "(3, 0, 0)" "(0, 5, 0)"]
    position_a position_b position_a2 position_b2 a n1 n2 position_ab h
  show ?thesis by blast
qed


lemma get_T_mat_parallel: "cross v1 v2 = (0, 0, 0) \<Longrightarrow> get_T_mat v1 v2 = NaN"
  by (cases v1) (simp add: get_T_mat_def and_then_def split: outcome.splits)

lemma get_T_mat_cases: "get_T_mat v1 v2 = NaN \<or> get_T_mat v1 v2 = Ok (triad v1 v2)"
proof (cases "cross v1 v2 = (0, 0, 0)")
  case True
  then show ?thesis by (simp add: get_T_mat_parallel)
next
  case False
  then show ?thesis by (simp add: get_T_mat_triad cross_nonzero_left)
qed

text \<open>
  Claim C7, as stated: calling \<open>get_U\<close> on two parallel reflections (a zero vector or a zero
  cross product, among the measured or among the assigned vectors) fails with
  \<open>ParallelVectorsError\<close> and returns no result. The code has no such check: the same
  reflection given twice makes \<open>get_T_mat\<close> divide the zero cross product by its zero norm,
  and \<open>get_U\<close> returns a matrix of \<^verbatim>\<open>nan\<close>.
\<close>

theorem C7_parallel_counterexample:
  "get_U (180, 90, 0, 0) (0, 0, 4) (180, 90, 0, 0) (0, 0, 4) identity 1 = NaN
   \<and> get_U (180, 90, 0, 0) (0, 0, 4) (180, 90, 0, 0) (0, 0, 4) identity 1
       \<noteq> Raise ParallelVectorsError"
  by (simp add: get_U_def angles2cart_a get_T_mat_parallel)

lemma get_U_parallel:
  assumes "angles2cart_at position_1 lam = Ok q1"
      and "angles2cart_at position_2 lam = Ok q2"
      and "cross q1 q2 = (0, 0, 0)
           \<or> cross (mat_vec B assignment_1) (mat_vec B assignment_2) = (0, 0, 0)"
  shows "get_U position_1 assignment_1 position_2 assignment_2 B lam = NaN"
proof (cases "cross q1 q2 = (0, 0, 0)")
  case True
  then show ?thesis
    by (simp add: get_U_def assms(1,2) get_T_mat_parallel)
next
  case False
  with assms(3) have "get_T_mat (mat_vec B assignment_1) (mat_vec B assignment_2) = NaN"
    by (simp add: get_T_mat_parallel)
  then show ?thesis
    using get_T_mat_cases [of q1 q2] by (auto simp: get_U_def assms(1,2))
qed

lemma angles2cart_at_cases:
  "angles2cart_at p lam = NaN \<or> (\<exists>q. angles2cart_at p lam = Ok q)"
proof -
  obtain tth th chi phi where p: "p = (tth, th, chi, phi)"
    by (cases p) auto
  obtain u1 u2 u3 where u: "unit_vector (th - tth / 2) chi phi = (u1, u2, u3)"
    by (cases "unit_vector (th - tth / 2) chi phi") auto
  show ?thesis
    by (simp add: p angles2cart_def u)
qed

lemma angles2cart_at_zero:
  assumes "fst p = 0" and "angles2cart_at p lam = Ok q"
  shows "q = (0, 0, 0)"
proof -
  obtain th chi phi where p: "p = (0, th, chi, phi)"
    using assms(1) by (cases p) auto
  obtain u1 u2 u3 where u: "unit_vector th chi phi = (u1, u2, u3)"
    by (cases "unit_vector th chi phi") auto
  show ?thesis
    using assms(2) by (simp add: p angles2cart_def u split: if_splits)
qed

lemma mat_vec_zero [simp]: "mat_vec B (0, 0, 0) = (0, 0, 0)"
  by (cases B rule: transpose_m.cases) simp

lemma cross_same [simp]: "cross v v = (0, 0, 0)"
  by (cases v) simp

lemma get_U_never_raises: "get_U position_1 assignment_1 position_2 assignment_2 B lam \<noteq> Raise e"
proof -
  have T: "get_T_mat v w \<noteq> Raise e'" for v w e'
    using get_T_mat_cases [of v w] by auto
  show ?thesis
    using angles2cart_at_cases [of position_1 lam] angles2cart_at_cases [of position_2 lam]
    by (auto simp: get_U_def and_then_def T split: outcome.splits)
qed

text \<open>
  Claim C7, amended: \<open>get_U\<close> never fails with \<open>ParallelVectorsError\<close>, nor with any other
  error. On two reflections that are the same in one of the two spaces (the same angular
  position twice, or the same assignment twice), or one of which is zero (a position with
  \<open>two_theta = 0\<close>, or the assignment \<open>(0, 0, 0)\<close>), the cross product or the vector itself
  is exactly zero: \<open>get_T_mat\<close> divides by a zero norm and \<open>get_U\<close> returns a matrix with
  \<^verbatim>\<open>nan\<close> entries. Nothing is said of two reflections that are parallel and different:
  there the cross product the code computes need not be exactly zero.
\<close>

theorem C7_degenerate_returns_nan:
  "get_U position_1 assignment_1 position_2 assignment_2 B lam \<noteq> Raise e
   \<and> (position_1 = position_2 \<or> assignment_1 = assignment_2
        \<or> fst position_1 = 0 \<or> fst position_2 = 0
        \<or> assignment_1 = (0, 0, 0) \<or> assignment_2 = (0, 0, 0)
      \<longrightarrow> get_U position_1 assignment_1 position_2 assignment_2 B lam = NaN)"
proof (intro conjI impI)
  show "get_U position_1 assignment_1 position_2 assignment_2 B lam \<noteq> Raise e"
    by (rule get_U_never_raises)
next
  assume h: "position_1 = position_2 \<or> assignment_1 = assignment_2
        \<or> fst position_1 = 0 \<or> fst position_2 = 0
        \<or> assignment_1 = (0, 0, 0) \<or> assignment_2 = (0, 0, 0)"
  show "get_U position_1 assignment_1 position_2 assignment_2 B lam = NaN"
  proof (cases "\<exists>q1 q2. angles2cart_at position_1 lam = Ok q1 \<and> angles2cart_at position_2 lam = Ok q2")
    case False
    then show ?thesis
      using angles2cart_at_cases [of position_1 lam] angles2cart_at_cases [of position_2 lam]
      by (auto simp: get_U_def)
  next
    case True
    then obtain q1 q2 where q: "angles2cart_at position_1 lam = Ok q1"
      "angles2cart_at position_2 lam = Ok q2"
      by blast
    have "cross q1 q2 = (0, 0, 0)
        \<or> cross (mat_vec B assignment_1) (mat_vec B assignment_2) = (0, 0, 0)"
      using h q angles2cart_at_zero [of position_1 lam q1] angles2cart_at_zero [of position_2 lam q2]
      by auto
    with q show ?thesis
      by (rule get_U_parallel)
  qed
qed

theorem C7_degenerate_returns_nan_witness:
  "(180 :: real, 90 :: real, 0 :: real, 0 :: real) = (180, 90, 0, 0)
   \<and> get_U (180, 90, 0, 0) (0, 0, 4) (180, 90, 0, 0) (- 1, 0, 5) identity 1 = NaN
   \<and> get_U (180, 90, 0, 0) (0, 0, 4) (180, 90, 0, 0) (- 1, 0, 5) identity 1
       \<noteq> Raise ParallelVectorsError"
  using C7_degenerate_returns_nan
    [of "(180, 90, 0, 0)" "(0, 0, 4)" "(180, 90, 0, 0)" "(- 1, 0, 5)" identity 1 ParallelVectorsError]
  by simp

section \<open>The length of the scattering vector\<close>

lemma unit_vector_unit: "dot (unit_vector omega chi phi) (unit_vector omega chi phi) = 1"
proof -
  define co so cc sc cp sp where "co = cos_deg omega" and "so = sin_deg omega"
    and "cc = cos_deg chi" and "sc = sin_deg chi" and "cp = cos_deg phi" and "sp = sin_deg phi"
  have o: "so * so = 1 - co * co" and c: "sc * sc = 1 - cc * cc" and p: "sp * sp = 1 - cp * cp"
    unfolding co_def so_def cc_def sc_def cp_def sp_def sin_deg_def cos_deg_def
    using sin_cos_squared_add3 [of "omega * pi / 180"] sin_cos_squared_add3 [of "chi * pi / 180"]
      sin_cos_squared_add3 [of "phi * pi / 180"]
    by (simp_all add: algebra_simps)
  have "(co * cc * cp - so * sp) * (co * cc * cp - so * sp)
      + (co * cc * sp + so * cp) * (co * cc * sp + so * cp) + co * sc * (co * sc)
      = co * co * (cc * cc) * (cp * cp + sp * sp) + so * so * (sp * sp + cp * cp)
        + co * co * (sc * sc)"
    by (simp add: algebra_simps)
  also have "\<dots> = 1"
    unfolding o c p by (simp add: algebra_simps)
  finally show ?thesis
    by (simp add: unit_vector_def co_def so_def cc_def sc_def cp_def sp_def)
qed

text \<open>
  Claim C3, as stated: for every angular position and every nonzero wavelength the vector
  of \<open>angles2cart\<close> has Euclidean norm \<open>4 \<pi> sin(two_theta/2) / lam\<close>. At
  \<open>two_theta = -180\<close> and \<open>lam = 1\<close> that number is \<open>- 4 \<pi>\<close>, and the norm is \<open>4 \<pi>\<close>.
\<close>

theorem C3_norm_counterexample:
  "angles2cart (- 180) 0 0 0 1 = Ok (0, - (4 * pi), 0)
   \<and> norm_v (0, - (4 * pi), 0) \<noteq> 4 * pi * sin_deg (- 180 / 2) / 1"
proof -
  have "angles2cart (- 180) 0 0 0 1 = Ok (0, - (4 * pi), 0)"
    by (simp add: angles2cart_def unit_vector_def)
  moreover have "norm_v (0, - (4 * pi), 0) = 4 * pi"
    by (simp add: norm_v_def real_sqrt_mult)
  ultimately show ?thesis by simp
qed

text \<open>
  Claim C3, amended: for every angular position and every nonzero wavelength, the unit vector
  built from omega, chi and phi has norm 1, and the vector of \<open>angles2cart\<close> has Euclidean
  norm \<open>\<bar>4 \<pi> sin(two_theta/2) / lam\<bar>\<close>, whatever theta, chi and phi are.
\<close>

theorem C3_norm_of_angles2cart:
  assumes "lam \<noteq> 0"
  shows "norm_v (unit_vector (th - tth / 2) chi phi) = 1
       \<and> (\<exists>q. angles2cart tth th chi phi lam = Ok q
            \<and> norm_v q = \<bar>4 * pi * sin_deg (tth / 2) / lam\<bar>)"
proof -
  let ?u = "unit_vector (th - tth / 2) chi phi"
  let ?k = "4 * pi * sin_deg (tth / 2)"
  have u: "norm_v ?u = 1"
    by (simp add: norm_v_def unit_vector_unit)
  have "angles2cart tth th chi phi lam = Ok (scale (1 / lam) (scale ?k ?u))"
    using assms by (simp add: angles2cart_def div_v_Ok)
  moreover have n: "norm_v (scale (1 / lam) (scale ?k ?u)) = \<bar>?k / lam\<bar>"
    by (simp add: norm_v_scale u abs_mult)
  ultimately show ?thesis
    using u by blast
qed

theorem C3_norm_of_angles2cart_witness:
  "(1 :: real) \<noteq> 0 \<and> norm_v (unit_vector (90 - 180 / 2) 90 0) = 1
   \<and> (\<exists>q. angles2cart 180 90 90 0 1 = Ok q
        \<and> norm_v q = \<bar>4 * pi * sin_deg (180 / 2) / 1\<bar>)"
  using C3_norm_of_angles2cart [of 1 90 180 90 0] by simp

section \<open>The reciprocal cell\<close>

lemma np_linalg_inv_Ok: "det A \<noteq> 0 \<Longrightarrow> np_linalg_inv lu A = Ok (inv_m A)"
  by (simp add: np_linalg_inv_def inv_m_def)

lemma matmul_inv_m: "det A \<noteq> 0 \<Longrightarrow> matmul A (inv_m A) = identity"
  unfolding inv_m_def by (rule right_inverse)

lemma inv_m_matmul: "det A \<noteq> 0 \<Longrightarrow> matmul (inv_m A) A = identity"
  unfolding inv_m_def by (rule left_inverse)

lemma inverse_unique:
  assumes "matmul A C = identity"
  shows "det A \<noteq> 0" and "inv_m A = C"
proof -
  have "det (matmul A C) = 1"
    using assms by simp
  then show d: "det A \<noteq> 0"
    by (auto simp: det_matmul)
  have "inv_m A = matmul (inv_m A) (matmul A C)"
    by (simp add: assms)
  also have "\<dots> = matmul (matmul (inv_m A) A) C"
    by (simp add: matmul_assoc)
  also have "\<dots> = C"
    using d by (simp add: inv_m_matmul)
  finally show "inv_m A = C" .
qed

lemma matmul_scale_m: "matmul (scale_m s A) (scale_m t B) = scale_m (s * t) (matmul A B)"
  by (cases A rule: transpose_m.cases, cases B rule: transpose_m.cases)
     (simp add: algebra_simps)

lemma scale_m_scale_m: "scale_m s (scale_m t A) = scale_m (s * t) A"
  by (cases A rule: transpose_m.cases) (simp add: algebra_simps)

lemma reciprocal_twice:
  assumes "det A \<noteq> 0" and "k \<noteq> 0"
  shows "det (scale_m k (inv_m A)) \<noteq> 0"
    and "scale_m k (inv_m (scale_m k (inv_m A))) = A"
proof -
  have "matmul (scale_m k (inv_m A)) (scale_m (1 / k) A) = scale_m 1 (matmul (inv_m A) A)"
    using assms(2) by (simp add: matmul_scale_m)
  then have i: "matmul (scale_m k (inv_m A)) (scale_m (1 / k) A) = identity"
    using assms(1) by (simp add: inv_m_matmul)
  from inverse_unique [OF i] show "det (scale_m k (inv_m A)) \<noteq> 0"
    and "scale_m k (inv_m (scale_m k (inv_m A))) = A"
    using assms(2) by (simp_all add: scale_m_scale_m)
qed

lemma arccos_deg_cos_deg:
  assumes "0 \<le> x" and "x \<le> 180"
  shows "arccos_deg (cos_deg x) = Ok x"
proof -
  have "0 \<le> x * pi / 180"
    using assms(1) by simp
  moreover have "x * pi / 180 \<le> pi"
    using assms(2) mult_right_mono [of x 180 pi] by simp
  ultimately have "arccos (cos (x * pi / 180)) = x * pi / 180"
    by (rule arccos_cos)
  then show ?thesis
    by (simp add: arccos_deg_def cos_deg_def)
qed

lemma cos_deg_arccos:
  assumes "- 1 \<le> x" and "x \<le> 1"
  shows "cos_deg (arccos x * 180 / pi) = x"
  using assms by (simp add: cos_deg_def)

lemma np_sqrt_square: "0 < a \<Longrightarrow> np_sqrt (a\<^sup>2) = Ok a"
  by (simp add: np_sqrt_def)

lemma np_div_Ok: "y \<noteq> 0 \<Longrightarrow> np_div x y = Ok (x / y)"
  by (simp add: np_div_def)

lemma reciprocal_of_metric:
  assumes "0 < a" "0 < b" "0 < c"
      and "0 \<le> alpha" "alpha \<le> 180" "0 \<le> beta" "beta \<le> 180" "0 \<le> gamma" "gamma \<le> 180"
  shows "reciprocal_of_Minv (metric a b c alpha beta gamma) = Ok (a, b, c, alpha, beta, gamma)"
  using assms by (simp add: metric_def np_sqrt_square np_div_Ok arccos_deg_cos_deg)

lemma ratio_bounds:
  assumes "0 < p" and "0 < q" and "w\<^sup>2 \<le> p * q"
  shows "- 1 \<le> w / (sqrt p * sqrt q)" and "w / (sqrt p * sqrt q) \<le> 1"
proof -
  have "\<bar>w\<bar> \<le> sqrt (p * q)"
    using assms(3) by (simp add: real_le_rsqrt)
  then have le: "\<bar>w\<bar> \<le> sqrt p * sqrt q"
    by (simp add: real_sqrt_mult)
  have pos: "0 < sqrt p * sqrt q"
    using assms(1,2) by simp
  from le have "w \<le> sqrt p * sqrt q" and "- (sqrt p * sqrt q) \<le> w"
    by linarith+
  with pos show "- 1 \<le> w / (sqrt p * sqrt q)" and "w / (sqrt p * sqrt q) \<le> 1"
    by (simp_all add: pos_le_divide_eq pos_divide_le_eq)
qed

lemma sqrt_times_ratio: "0 < p \<Longrightarrow> 0 < q \<Longrightarrow> sqrt p * sqrt q * (w / (sqrt p * sqrt q)) = w"
  by simp

lemma reciprocal_of_Minv_symmetric:
  assumes "0 < p" "0 < q" "0 < r"
      and "u\<^sup>2 \<le> p * q" "v\<^sup>2 \<le> p * r" "w\<^sup>2 \<le> q * r"
  shows "reciprocal_of_Minv ((p, u, v), (u, q, w), (v, w, r)) = Ok (cell_of ((p, u, v), (u, q, w), (v, w, r)))"
    and "metric_of (cell_of ((p, u, v), (u, q, w), (v, w, r))) = ((p, u, v), (u, q, w), (v, w, r))"
proof -
  note b = ratio_bounds [OF assms(2,3,6)] ratio_bounds [OF assms(1,3,5)] ratio_bounds [OF assms(1,2,4)]
  show "reciprocal_of_Minv ((p, u, v), (u, q, w), (v, w, r)) = Ok (cell_of ((p, u, v), (u, q, w), (v, w, r)))"
    using assms(1,2,3) b by (simp add: np_sqrt_def np_div_def arccos_deg_def cell_of_def)
  show "metric_of (cell_of ((p, u, v), (u, q, w), (v, w, r))) = ((p, u, v), (u, q, w), (v, w, r))"
    using assms(1,2,3) b by (simp add: cell_of_def metric_def cos_deg_arccos)
qed

lemma quadratic_form:
  "dot (x, y, z) (mat_vec ((p, u, v), (u, q, w), (v, w, r)) (x, y, z))
     = p * x\<^sup>2 + q * y\<^sup>2 + r * z\<^sup>2 + 2 * u * x * y + 2 * v * x * z + 2 * w * y * z"
  by (simp add: algebra_simps power2_eq_square)

lemma pos_def_minors:
  assumes "pos_def ((p, u, v), (u, q, w), (v, w, r))"
  shows "0 < p" and "0 < q" and "0 < r"
    and "0 < p * q - u\<^sup>2" and "0 < p * r - v\<^sup>2" and "0 < q * r - w\<^sup>2"
    and "0 < det ((p, u, v), (u, q, w), (v, w, r))"
proof -
  let ?M = "((p, u, v), (u, q, w), (v, w, r))"
  have pd: "0 < dot (x, y, z) (mat_vec ?M (x, y, z))" if "(x, y, z) \<noteq> (0, 0, 0)" for x y z
    using assms that unfolding pos_def_def by blast
  show p: "0 < p"
    using pd [of 1 0 0] by simp
  show q: "0 < q"
    using pd [of 0 1 0] by simp
  show r: "0 < r"
    using pd [of 0 0 1] by simp
  have "0 < dot (- u, p, 0) (mat_vec ?M (- u, p, 0))"
    using p by (intro pd) simp
  also have "dot (- u, p, 0) (mat_vec ?M (- u, p, 0)) = p * (p * q - u\<^sup>2)"
    by (simp add: algebra_simps power2_eq_square)
  finally show pq: "0 < p * q - u\<^sup>2"
    using p by (simp add: zero_less_mult_iff)
  have "0 < dot (- v, 0, p) (mat_vec ?M (- v, 0, p))"
    using p by (intro pd) simp
  also have "dot (- v, 0, p) (mat_vec ?M (- v, 0, p)) = p * (p * r - v\<^sup>2)"
    by (simp add: algebra_simps power2_eq_square)
  finally show "0 < p * r - v\<^sup>2"
    using p by (simp add: zero_less_mult_iff)
  have "0 < dot (0, - w, q) (mat_vec ?M (0, - w, q))"
    using q by (intro pd) simp
  also have "dot (0, - w, q) (mat_vec ?M (0, - w, q)) = q * (q * r - w\<^sup>2)"
    by (simp add: algebra_simps power2_eq_square)
  finally show "0 < q * r - w\<^sup>2"
    using q by (simp add: zero_less_mult_iff)
  let ?x = "(u * w - q * v, u * v - p * w, p * q - u\<^sup>2)"
  have "0 < dot ?x (mat_vec ?M ?x)"
    using pq by (intro pd) simp
  also have "dot ?x (mat_vec ?M ?x) = (p * q - u\<^sup>2) * det ?M"
    by (simp add: algebra_simps power2_eq_square)
  finally show "0 < det ?M"
    using pq by (simp add: zero_less_mult_iff)
qed

lemma minors_pos_def:
  assumes "0 < p" and "0 < p * q - u\<^sup>2" and "0 < det ((p, u, v), (u, q, w), (v, w, r))"
  shows "pos_def ((p, u, v), (u, q, w), (v, w, r))"
  unfolding pos_def_def
proof (intro allI impI)
  fix x :: vec
  assume nz: "x \<noteq> (0, 0, 0)"
  obtain x0 x1 x2 where x: "x = (x0, x1, x2)"
    by (cases x) auto
  let ?M = "((p, u, v), (u, q, w), (v, w, r))"
  let ?D = "p * q - u\<^sup>2"
  let ?Q = "dot x (mat_vec ?M x)"
  have id: "p * ?D * ?Q = ?D * (p * x0 + u * x1 + v * x2)\<^sup>2
      + (?D * x1 + (p * w - u * v) * x2)\<^sup>2 + p * det ?M * x2\<^sup>2"
    unfolding x by (simp add: algebra_simps power2_eq_square)
  have t1: "0 \<le> ?D * (p * x0 + u * x1 + v * x2)\<^sup>2"
    using assms(2) by simp
  have t2: "0 \<le> (?D * x1 + (p * w - u * v) * x2)\<^sup>2"
    by simp
  have t3: "0 \<le> p * det ?M * x2\<^sup>2"
    using assms(1,3) by simp
  have "0 < p * ?D * ?Q"
  proof (cases "x2 = 0")
    case False
    then have "0 < p * det ?M * x2\<^sup>2"
      using assms(1,3) by simp
    with t1 t2 show ?thesis unfolding id by linarith
  next
    case x2: True
    show ?thesis
    proof (cases "x1 = 0")
      case False
      then have "0 < (?D * x1 + (p * w - u * v) * x2)\<^sup>2"
        using assms(2) x2 by simp
      with t1 t3 show ?thesis unfolding id by linarith
    next
      case x1: True
      with x2 nz x have "x0 \<noteq> 0" by simp
      then have "0 < ?D * (p * x0 + u * x1 + v * x2)\<^sup>2"
        using assms(1,2) x1 x2 by simp
      with t2 t3 show ?thesis unfolding id by linarith
    qed
  qed
  moreover have "0 < p * ?D"
    using assms(1,2) by simp
  ultimately show "0 < ?Q"
    by (simp add: zero_less_mult_iff)
qed

lemma reciprocal_cell_metric_of:
  "reciprocal_cell lu rc =
     and_then (np_linalg_inv lu (metric_of rc)) (\<lambda>Mi. reciprocal_of_Minv (scale_m ((2 * pi)\<^sup>2) Mi))"
  by (cases rc rule: metric_of.cases) (simp add: reciprocal_cell_def)

lemma scaled_inverse_symmetric:
  assumes "0 < k" and "pos_def ((p, u, v), (u, q, w), (v, w, r))"
  shows "\<exists>P Q R U V W. scale_m k (inv_m ((p, u, v), (u, q, w), (v, w, r))) = ((P, U, V), (U, Q, W), (V, W, R))
           \<and> 0 < P \<and> 0 < Q \<and> 0 < R \<and> U\<^sup>2 \<le> P * Q \<and> V\<^sup>2 \<le> P * R \<and> W\<^sup>2 \<le> Q * R"
proof -
  let ?M = "((p, u, v), (u, q, w), (v, w, r))"
  define d where "d = det ?M"
  note m = pos_def_minors [OF assms(2)]
  have d: "0 < d"
    using m(7) by (simp add: d_def)
  define h where "h = k / d"
  have h: "0 < h"
    using assms(1) d by (simp add: h_def)
  define P Q R U V W where "P = h * (q * r - w\<^sup>2)" and "Q = h * (p * r - v\<^sup>2)"
    and "R = h * (p * q - u\<^sup>2)" and "U = h * (v * w - u * r)" and "V = h * (u * w - q * v)"
    and "W = h * (u * v - p * w)"
  have "scale_m k (inv_m ?M) = scale_m h (adjugate ?M)"
    by (simp add: inv_m_def scale_m_scale_m h_def d_def)
  also have "\<dots> = ((P, U, V), (U, Q, W), (V, W, R))"
    by (simp add: P_def Q_def R_def U_def V_def W_def algebra_simps power2_eq_square)
  finally have e: "scale_m k (inv_m ?M) = ((P, U, V), (U, Q, W), (V, W, R))" .
  have pos: "0 < P" "0 < Q" "0 < R"
    using h m(4,5,6) by (simp_all add: P_def Q_def R_def)
  have dd: "d = p * (q * r - w * w) - u * (u * r - w * v) + v * (u * w - q * v)"
    by (simp add: d_def)
  have "P * Q - U\<^sup>2 = h\<^sup>2 * (r * d)"
    unfolding P_def Q_def U_def dd by (simp add: algebra_simps power2_eq_square)
  moreover have "P * R - V\<^sup>2 = h\<^sup>2 * (q * d)"
    unfolding P_def R_def V_def dd by (simp add: algebra_simps power2_eq_square)
  moreover have "Q * R - W\<^sup>2 = h\<^sup>2 * (p * d)"
    unfolding Q_def R_def W_def dd by (simp add: algebra_simps power2_eq_square)
  moreover have "0 \<le> h\<^sup>2 * (r * d)" "0 \<le> h\<^sup>2 * (q * d)" "0 \<le> h\<^sup>2 * (p * d)"
    using d m(1,2,3) by simp_all
  ultimately have "U\<^sup>2 \<le> P * Q" "V\<^sup>2 \<le> P * R" "W\<^sup>2 \<le> Q * R"
    by linarith+
  with e pos show ?thesis by blast
qed

lemma cos_deg_60 [simp]: "cos_deg 60 = 1 / 2"
proof -
  have "(60 :: real) * pi / 180 = pi / 3" by simp
  then show ?thesis by (simp add: cos_deg_def cos_60)
qed

lemma cos_deg_180 [simp]: "cos_deg 180 = - 1"
  by (simp add: cos_deg_def)

lemma cos_deg_sq_le_1: "(cos_deg x)\<^sup>2 \<le> 1"
  unfolding cos_deg_def by (simp add: power2_eq_square) (metis abs_cos_le_one abs_mult abs_mult_self_eq mult_le_one abs_ge_zero)

lemma det_metric:
  "det (metric a b c alpha beta gamma) =
     a\<^sup>2 * b\<^sup>2 * c\<^sup>2 * ((1 - (cos_deg beta)\<^sup>2) * (1 - (cos_deg gamma)\<^sup>2)
        - (cos_deg alpha - cos_deg beta * cos_deg gamma)\<^sup>2)"
  by (simp add: metric_def algebra_simps power2_eq_square)

lemma metric_pos_def_iff:
  "pos_def (metric a b c alpha beta gamma) \<longleftrightarrow> 0 < det (metric a b c alpha beta gamma)"
proof
  assume "pos_def (metric a b c alpha beta gamma)"
  then show "0 < det (metric a b c alpha beta gamma)"
    unfolding metric_def by (rule pos_def_minors(7))
next
  let ?G = "(1 - (cos_deg beta)\<^sup>2) * (1 - (cos_deg gamma)\<^sup>2)
        - (cos_deg alpha - cos_deg beta * cos_deg gamma)\<^sup>2"
  assume d: "0 < det (metric a b c alpha beta gamma)"
  then have "0 < a\<^sup>2 * b\<^sup>2 * c\<^sup>2 * ?G"
    by (simp only: det_metric)
  moreover have "0 \<le> a\<^sup>2 * b\<^sup>2 * c\<^sup>2"
    by simp
  ultimately have abc: "0 < a\<^sup>2 * b\<^sup>2 * c\<^sup>2" and G: "0 < ?G"
    by (auto simp only: zero_less_mult_iff)
  from abc have a: "0 < a\<^sup>2" and b: "0 < b\<^sup>2"
    by (auto simp: zero_less_mult_iff)
  have "0 \<le> (cos_deg alpha - cos_deg beta * cos_deg gamma)\<^sup>2"
    by simp
  with G have "0 < (1 - (cos_deg beta)\<^sup>2) * (1 - (cos_deg gamma)\<^sup>2)"
    by linarith
  moreover have "0 \<le> 1 - (cos_deg beta)\<^sup>2"
    using cos_deg_sq_le_1 [of beta] by simp
  ultimately have g: "0 < 1 - (cos_deg gamma)\<^sup>2"
    by (simp add: zero_less_mult_iff)
  have "a\<^sup>2 * b\<^sup>2 - (a * b * cos_deg gamma)\<^sup>2 = a\<^sup>2 * b\<^sup>2 * (1 - (cos_deg gamma)\<^sup>2)"
    by (simp add: algebra_simps power2_eq_square)
  also have "0 < a\<^sup>2 * b\<^sup>2 * (1 - (cos_deg gamma)\<^sup>2)"
    using a b g by simp
  finally have m2: "0 < a\<^sup>2 * b\<^sup>2 - (a * b * cos_deg gamma)\<^sup>2" .
  show "pos_def (metric a b c alpha beta gamma)"
    unfolding metric_def using a m2 d [unfolded metric_def] by (rule minors_pos_def)
qed





lemma pos_def_cell_skew: "pos_def (metric 1 2 3 90 90 60)"
  by (simp add: metric_pos_def_iff) (simp add: metric_def)

lemma pos_def_returns:
  assumes "pos_def (metric a b c alpha beta gamma)"
  shows "\<exists>rc. reciprocal_cell lu (a, b, c, alpha, beta, gamma) = Ok rc"
proof -
  let ?M = "metric a b c alpha beta gamma"
  have k: "(0 :: real) < (2 * pi)\<^sup>2"
    by simp
  have pd: "pos_def ((a\<^sup>2, a * b * cos_deg gamma, a * c * cos_deg beta),
      (a * b * cos_deg gamma, b\<^sup>2, b * c * cos_deg alpha),
      (a * c * cos_deg beta, b * c * cos_deg alpha, c\<^sup>2))"
    using assms by (simp add: metric_def)
  have d: "det ?M \<noteq> 0"
    using assms by (simp add: metric_pos_def_iff)
  obtain P Q R U V W
    where N: "scale_m ((2 * pi)\<^sup>2) (inv_m ?M) = ((P, U, V), (U, Q, W), (V, W, R))"
    and b: "0 < P" "0 < Q" "0 < R" "U\<^sup>2 \<le> P * Q" "V\<^sup>2 \<le> P * R" "W\<^sup>2 \<le> Q * R"
    using scaled_inverse_symmetric [OF k pd] unfolding metric_def by blast
  have "reciprocal_cell lu (a, b, c, alpha, beta, gamma)
      = reciprocal_of_Minv (scale_m ((2 * pi)\<^sup>2) (inv_m ?M))"
    using d by (simp add: reciprocal_cell_def np_linalg_inv_Ok)
  also have "\<dots> = Ok (cell_of ((P, U, V), (U, Q, W), (V, W, R)))"
    unfolding N by (rule reciprocal_of_Minv_symmetric(1) [OF b])
  finally show ?thesis by blast
qed






text \<open>
  Claim C4. For every valid unit cell (positive lengths \<open>a\<close>, \<open>b\<close>, \<open>c\<close> and angles in
  (0, 180) that give a positive definite metric tensor), the reciprocal-cell computation
  (metric tensor, inversion, scaling by \<open>(2 \<pi>)\<^sup>2\<close>, square roots of the diagonal, arc cosines
  of the normalised off-diagonal entries) applied twice returns the original
  \<open>a\<close>, \<open>b\<close>, \<open>c\<close>, \<open>alpha\<close>, \<open>beta\<close>, \<open>gamma\<close>.
\<close>

theorem C4_reciprocal_round_trip:
  assumes "0 < a" and "0 < b" and "0 < c"
      and "0 < alpha" and "alpha < 180" and "0 < beta" and "beta < 180"
      and "0 < gamma" and "gamma < 180"
      and "pos_def (metric a b c alpha beta gamma)"
  shows "\<exists>rc. reciprocal_cell lu (a, b, c, alpha, beta, gamma) = Ok rc
            \<and> reciprocal_cell lu rc = Ok (a, b, c, alpha, beta, gamma)"
proof -
  let ?M = "metric a b c alpha beta gamma"
  define k :: real where "k = (2 * pi)\<^sup>2"
  have k: "0 < k" "k \<noteq> 0"
    by (simp_all add: k_def)
  have rc: "reciprocal_cell lu x =
      and_then (np_linalg_inv lu (metric_of x)) (\<lambda>Mi. reciprocal_of_Minv (scale_m k Mi))" for x
    unfolding k_def by (rule reciprocal_cell_metric_of)
  have pd: "pos_def ((a\<^sup>2, a * b * cos_deg gamma, a * c * cos_deg beta),
      (a * b * cos_deg gamma, b\<^sup>2, b * c * cos_deg alpha),
      (a * c * cos_deg beta, b * c * cos_deg alpha, c\<^sup>2))"
    using assms(10) by (simp add: metric_def)
  have d: "det ?M \<noteq> 0"
    using pos_def_minors(7) [OF pd] by (simp add: metric_def)
  obtain P Q R U V W where N: "scale_m k (inv_m ?M) = ((P, U, V), (U, Q, W), (V, W, R))"
    and b: "0 < P" "0 < Q" "0 < R" "U\<^sup>2 \<le> P * Q" "V\<^sup>2 \<le> P * R" "W\<^sup>2 \<le> Q * R"
    using scaled_inverse_symmetric [OF k(1) pd] unfolding metric_def by blast
  let ?N = "scale_m k (inv_m ?M)"
  have "reciprocal_cell lu (a, b, c, alpha, beta, gamma) = reciprocal_of_Minv ?N"
    using d by (simp add: rc np_linalg_inv_Ok)
  also have "\<dots> = Ok (cell_of ?N)"
    unfolding N by (rule reciprocal_of_Minv_symmetric(1) [OF b])
  finally have fwd: "reciprocal_cell lu (a, b, c, alpha, beta, gamma) = Ok (cell_of ?N)" .
  have bwd: "metric_of (cell_of ?N) = ?N"
    unfolding N by (rule reciprocal_of_Minv_symmetric(2) [OF b])
  have "reciprocal_cell lu (cell_of ?N) = reciprocal_of_Minv (scale_m k (inv_m ?N))"
    using reciprocal_twice(1) [OF d k(2)] by (simp add: rc bwd np_linalg_inv_Ok)
  also have "\<dots> = reciprocal_of_Minv ?M"
    using reciprocal_twice(2) [OF d k(2)] by simp
  also have "\<dots> = Ok (a, b, c, alpha, beta, gamma)"
    using assms(1-9) by (intro reciprocal_of_metric) simp_all
  finally show ?thesis
    using fwd by blast
qed

theorem C4_reciprocal_round_trip_witness:
  "(0 :: real) < 1 \<and> (0 :: real) < 2 \<and> (0 :: real) < 3
   \<and> (0 :: real) < 90 \<and> (90 :: real) < 180 \<and> (0 :: real) < 60 \<and> (60 :: real) < 180
   \<and> pos_def (metric 1 2 3 90 90 60)
   \<and> (\<exists>rc. reciprocal_cell exact_pivots (1, 2, 3, 90, 90, 60) = Ok rc
          \<and> reciprocal_cell exact_pivots rc = Ok (1, 2, 3, 90, 90, 60))"
proof -
  note pd = pos_def_cell_skew
  have h: "(0 :: real) < 1" "(0 :: real) < 2" "(0 :: real) < 3"
    "(0 :: real) < 90" "(90 :: real) < 180" "(0 :: real) < 60" "(60 :: real) < 180"
    by simp_all
  from C4_reciprocal_round_trip [OF h(1,2,3) h(4,5) h(4,5) h(6,7) pd] pd h
  show ?thesis by blast
qed

section \<open>The example of the notebook\<close>

lemma sin_poly_sum: "(\<Sum>m<9. sin_coeff m * x ^ m) = sin_poly x"
  by (simp add: sin_poly_def eval_nat_numeral lessThan_Suc sin_coeff_Suc cos_coeff_Suc)

lemma sin_near_poly: "\<bar>sin x - sin_poly x\<bar> \<le> \<bar>x\<bar> ^ 9 / 362880"
proof -
  have "inverse (fact 9 :: real) = 1 / 362880"
    by (simp add: fact_numeral inverse_eq_divide)
  then have "inverse (fact 9) * \<bar>x\<bar> ^ 9 = \<bar>x\<bar> ^ 9 / 362880"
    by simp
  then show ?thesis
    using Maclaurin_sin_bound [of x 9] by (simp only: sin_poly_sum)
qed

lemma sin_between:
  assumes "0 \<le> lo" and "lo \<le> x" and "x \<le> hi" and "hi \<le> 1"
  shows "sin_poly lo - lo ^ 9 / 362880 \<le> sin x" and "sin x \<le> sin_poly hi + hi ^ 9 / 362880"
proof -
  have half: "1 \<le> pi / 2"
    using pi_ge_two by simp
  have "sin lo \<le> sin x"
    using assms half by (intro sin_monotone_2pi_le) linarith+
  moreover have "\<bar>lo\<bar> ^ 9 = lo ^ 9"
    using assms(1) by simp
  then have "sin_poly lo - lo ^ 9 / 362880 \<le> sin lo"
    using sin_near_poly [of lo] by linarith
  ultimately show "sin_poly lo - lo ^ 9 / 362880 \<le> sin x"
    by linarith
  have "sin x \<le> sin hi"
    using assms half by (intro sin_monotone_2pi_le) linarith+
  moreover have "0 \<le> hi"
    using assms by linarith
  then have "\<bar>hi\<bar> ^ 9 = hi ^ 9"
    by simp
  then have "sin hi \<le> sin_poly hi + hi ^ 9 / 362880"
    using sin_near_poly [of hi] by linarith
  ultimately show "sin x \<le> sin_poly hi + hi ^ 9 / 362880"
    by linarith
qed

lemma pi_lower: "3.141588 < pi"
proof -
  have half: "1 \<le> pi / 2"
    using pi_ge_two by simp
  have "sin (0.523598 :: real) \<le> sin_poly 0.523598 + 0.523598 ^ 9 / 362880"
    by (rule sin_between(2) [of "0.523598"]) simp_all
  also have "\<dots> < 1 / 2"
    by (simp add: sin_poly_def power_divide)
  finally have "sin (0.523598 :: real) < sin (pi / 6)"
    by (simp add: sin_30)
  moreover have "- (pi / 2) \<le> 0.523598" "(0.523598 :: real) \<le> pi / 2"
    "- (pi / 2) \<le> pi / 6" "pi / 6 \<le> pi / 2"
    using half by simp_all
  ultimately have "0.523598 < pi / 6"
    by (simp add: sin_mono_less_eq)
  then show ?thesis by simp
qed

lemma pi_upper: "pi < 3.1416"
proof -
  have half: "1 \<le> pi / 2"
    using pi_ge_two by simp
  have "1 / 2 < sin_poly 0.5236 - 0.5236 ^ 9 / 362880"
    by (simp add: sin_poly_def power_divide)
  also have "\<dots> \<le> sin (0.5236 :: real)"
    by (rule sin_between(1) [of "0.5236" _ "0.5236"]) simp_all
  finally have "sin (pi / 6) < sin (0.5236 :: real)"
    by (simp add: sin_30)
  moreover have "- (pi / 2) \<le> 0.5236" "(0.5236 :: real) \<le> pi / 2"
    "- (pi / 2) \<le> pi / 6" "pi / 6 \<le> pi / 2"
    using half by simp_all
  ultimately have "pi / 6 < 0.5236"
    by (simp add: sin_mono_less_eq)
  then show ?thesis by simp
qed


lemma scaled_inverse_unique:
  assumes "k \<noteq> 0" and "matmul A (scale_m (1 / k) N) = identity"
  shows "det A \<noteq> 0" and "scale_m k (inv_m A) = N"
proof -
  from inverse_unique [OF assms(2)] show "det A \<noteq> 0" and "scale_m k (inv_m A) = N"
    using assms(1) by (simp_all add: scale_m_scale_m)
qed

lemma sin_deg_cos_deg_squares: "(sin_deg x)\<^sup>2 + (cos_deg x)\<^sup>2 = 1"
  by (simp add: sin_deg_def cos_deg_def)

lemma monoclinic_reciprocal:
  assumes "0 < a" and "0 < b" and "0 < c" and "0 < sin_deg beta"
  defines "A \<equiv> 2 * pi / (a * sin_deg beta)"
      and "Bq \<equiv> 2 * pi / b"
      and "C \<equiv> 2 * pi / (c * sin_deg beta)"
  shows "reciprocal_cell lu (a, b, c, 90, beta, 90)
     = Ok (A, Bq, C, 90, arccos (- cos_deg beta) * 180 / pi, 90)"
proof -
  define sb cb where "sb = sin_deg beta" and "cb = cos_deg beta"
  have sb: "0 < sb" and one: "cb * cb = 1 - sb * sb"
    using assms(4) sin_deg_cos_deg_squares [of beta]
    by (simp_all add: sb_def cb_def power2_eq_square)
  define k :: real where "k = (2 * pi)\<^sup>2"
  have k: "k \<noteq> 0"
    by (simp add: k_def)
  have pos: "0 < A" "0 < Bq" "0 < C"
    using assms(1-4) by (simp_all add: A_def Bq_def C_def)
  let ?M = "metric a b c 90 beta 90"
  let ?N = "((A\<^sup>2, 0, - (A * C * cb)), (0, Bq\<^sup>2, 0), (- (A * C * cb), 0, C\<^sup>2))"
  have M: "?M = ((a\<^sup>2, 0, a * c * cb), (0, b\<^sup>2, 0), (a * c * cb, 0, c\<^sup>2))"
    by (simp add: metric_def cb_def)
  have A: "A\<^sup>2 / k = 1 / (a\<^sup>2 * (sb * sb))" and Bq: "Bq\<^sup>2 / k = 1 / b\<^sup>2"
    and C: "C\<^sup>2 / k = 1 / (c\<^sup>2 * (sb * sb))" and AC: "A * C * cb / k = cb / (a * c * (sb * sb))"
    using assms(1-3) sb
    by (simp_all add: A_def Bq_def C_def k_def sb_def [symmetric] power2_eq_square)
  have "scale_m (1 / k) ?N =
      ((1 / (a\<^sup>2 * (sb * sb)), 0, - (cb / (a * c * (sb * sb)))), (0, 1 / b\<^sup>2, 0),
       (- (cb / (a * c * (sb * sb))), 0, 1 / (c\<^sup>2 * (sb * sb))))"
    using A Bq C AC by simp
  moreover have "matmul ((a\<^sup>2, 0, a * c * cb), (0, b\<^sup>2, 0), (a * c * cb, 0, c\<^sup>2)) \<dots> = identity"
  proof -
    have e1: "a\<^sup>2 / (a\<^sup>2 * (sb * sb)) - a * c * cb * cb / (a * c * (sb * sb)) = 1"
    proof -
      have "a\<^sup>2 / (a\<^sup>2 * (sb * sb)) - a * c * cb * cb / (a * c * (sb * sb))
          = 1 / (sb * sb) - cb * cb / (sb * sb)"
        using assms(1,3) by simp
      also have "\<dots> = 1"
        using sb by (simp add: one diff_divide_distrib [symmetric])
      finally show ?thesis .
    qed
    have e2: "c\<^sup>2 / (c\<^sup>2 * (sb * sb)) - a * c * cb * cb / (a * c * (sb * sb)) = 1"
    proof -
      have "c\<^sup>2 / (c\<^sup>2 * (sb * sb)) - a * c * cb * cb / (a * c * (sb * sb))
          = 1 / (sb * sb) - cb * cb / (sb * sb)"
        using assms(1,3) by simp
      also have "\<dots> = 1"
        using sb by (simp add: one diff_divide_distrib [symmetric])
      finally show ?thesis .
    qed
    have e3: "a * c * cb / (c\<^sup>2 * (sb * sb)) - a\<^sup>2 * cb / (a * c * (sb * sb)) = 0"
      using assms(1,3) sb by (simp add: power2_eq_square field_simps)
    have e4: "a * c * cb / (a\<^sup>2 * (sb * sb)) - c\<^sup>2 * cb / (a * c * (sb * sb)) = 0"
      using assms(1,3) sb by (simp add: power2_eq_square field_simps)
    show ?thesis
      using e1 e2 e3 e4 assms(2) by (simp add: identity_def algebra_simps)
  qed
  ultimately have "matmul ?M (scale_m (1 / k) ?N) = identity"
    by (simp only: M)
  from scaled_inverse_unique [OF k this]
  have d: "det ?M \<noteq> 0" and N: "scale_m k (inv_m ?M) = ?N" .
  have "reciprocal_cell lu (a, b, c, 90, beta, 90) = reciprocal_of_Minv ?N"
    using d N by (simp add: reciprocal_cell_def np_linalg_inv_Ok k_def)
  also have "\<dots> = Ok (A, Bq, C, 90, arccos (- cb) * 180 / pi, 90)"
  proof -
    have "- (A * C * cb) / (A * C) = - cb"
      using pos by simp
    moreover have "- 1 \<le> - cb" "- cb \<le> 1"
      using cos_deg_sq_le_1 [of beta] abs_le_square_iff [of "cos_deg beta" 1]
      by (simp_all add: cb_def abs_le_iff)
    ultimately show ?thesis
      using pos by (simp add: np_sqrt_def np_div_def arccos_deg_def)
  qed
  finally show ?thesis
    by (simp add: cb_def)
qed


lemma monoclinic_B:
  assumes "c \<noteq> 0"
  shows "B_matrix (A, Bq, C, 90, arccos (- cos_deg beta) * 180 / pi, 90) 90 c
     = Ok ((A, 0, - (C * cos_deg beta)), (0, Bq, 0), (0, 0, 2 * pi / c))"
proof -
  have "- 1 \<le> - cos_deg beta" "- cos_deg beta \<le> 1"
    using cos_deg_sq_le_1 [of beta] abs_le_square_iff [of "cos_deg beta" 1]
    by (simp_all add: abs_le_iff)
  then have "cos_deg (arccos (- cos_deg beta) * 180 / pi) = - cos_deg beta"
    by (rule cos_deg_arccos)
  then show ?thesis
    using assms by (simp add: B_matrix_def)
qed

lemma unit_of_unit: "dot u u = 1 \<Longrightarrow> unit_of u = u"
  by (cases u) (simp add: unit_of_def norm_v_def)

lemma unit_of_multiple: "0 < s \<Longrightarrow> dot u u = 1 \<Longrightarrow> v = scale s u \<Longrightarrow> unit_of v = u"
  by (simp add: unit_of_scale unit_of_unit)

lemma triad_pos:
  assumes "0 < d" and "y < 0"
  shows "get_T_mat (0, 0, d) (0, y, z) = Ok ((0, 0, 1), (0, - 1, 0), (1, 0, 0))"
proof -
  have c: "cross (0, 0, d) (0, y, z) = scale (- (d * y)) (1, 0, 0)"
    by simp
  have s: "0 < - (d * y)"
    using assms by (simp add: mult_pos_neg)
  have u1: "unit_of (0, 0, d) = (0, 0, 1)"
    using assms(1) by (intro unit_of_multiple [of d]) simp_all
  have u3: "unit_of (cross (0, 0, d) (0, y, z)) = (1, 0, 0)"
    using s _ c by (rule unit_of_multiple) simp
  have "cross (0, 0, d) (0, y, z) \<noteq> (0, 0, 0)"
    using assms by simp
  then have "get_T_mat (0, 0, d) (0, y, z) = Ok (triad (0, 0, d) (0, y, z))"
    using assms(1) by (intro get_T_mat_triad) simp_all
  also have "triad (0, 0, d) (0, y, z) = ((0, 0, 1), (0, - 1, 0), (1, 0, 0))"
    unfolding triad_def u1 u3 by simp
  finally show ?thesis .
qed

lemma triad_ass:
  assumes "0 < A" and "0 < C" and "0 < sb" and "sb * sb + cb * cb = 1"
  shows "get_T_mat (mat_vec ((A, 0, - (C * cb)), (0, Bq, 0), (0, 0, C * sb)) (0, 0, 4))
           (mat_vec ((A, 0, - (C * cb)), (0, Bq, 0), (0, 0, C * sb)) (- 1, 0, 5))
     = Ok ((- cb, - sb, 0), (0, 0, - 1), (sb, - cb, 0))"
proof -
  let ?c1 = "(- (4 * C * cb), 0, 4 * C * sb)"
  let ?c2 = "(- A - 5 * C * cb, 0, 5 * C * sb)"
  have c1: "mat_vec ((A, 0, - (C * cb)), (0, Bq, 0), (0, 0, C * sb)) (0, 0, 4) = ?c1"
    and c2: "mat_vec ((A, 0, - (C * cb)), (0, Bq, 0), (0, 0, C * sb)) (- 1, 0, 5) = ?c2"
    by (simp_all add: algebra_simps)
  have s: "0 < 4 * A * C * sb" and s4: "0 < 4 * C"
    using assms(1,2,3) by simp_all
  have c: "cross ?c1 ?c2 = scale (4 * A * C * sb) (0, - 1, 0)"
    by simp algebra
  have u1: "unit_of ?c1 = (- cb, 0, sb)"
    using s4 by (rule unit_of_multiple) (use assms(4) in \<open>simp_all add: algebra_simps\<close>)
  have u3: "unit_of (cross ?c1 ?c2) = (0, - 1, 0)"
    using s _ c by (rule unit_of_multiple) simp
  have "cross ?c1 ?c2 \<noteq> (0, 0, 0)"
    unfolding c using assms(1,2,3) by (simp add: scale_eq_zero)
  then have "get_T_mat ?c1 ?c2 = Ok (triad ?c1 ?c2)"
    by (intro get_T_mat_triad cross_nonzero_left [of ?c1 ?c2])
  also have "triad ?c1 ?c2 = ((- cb, - sb, 0), (0, 0, - 1), (sb, - cb, 0))"
    unfolding triad_def u1 u3 by simp
  finally show ?thesis
    by (simp only: c1 c2)
qed


lemma solve_by_inverse:
  assumes "det A \<noteq> 0" and "mat_vec A x = q"
  shows "mat_vec (inv_m A) q = x"
proof -
  have "mat_vec (inv_m A) q = mat_vec (matmul (inv_m A) A) x"
    by (simp add: mat_vec_matmul assms(2))
  also have "\<dots> = x"
    using assms(1) by (simp add: inv_m_matmul)
  finally show ?thesis .
qed

lemma monoclinic_U:
  assumes "0 < A" and "0 < C" and "0 < sb" and "sb * sb + cb * cb = 1"
      and "angles2cart_at p1 lam = Ok (0, 0, d)" and "angles2cart_at p2 lam = Ok (0, y, z)"
      and "0 < d" and "y < 0"
  shows "get_U p1 (0, 0, 4) p2 (- 1, 0, 5) ((A, 0, - (C * cb)), (0, Bq, 0), (0, 0, C * sb)) lam
     = Ok ((0, - 1, 0), (sb, 0, cb), (- cb, 0, sb))"
  unfolding get_U_def assms(5,6) and_then_Ok triad_pos [OF assms(7,8)] triad_ass [OF assms(1-4)]
  by simp

lemma monoclinic_UB:
  assumes "0 < A" and "0 < Bq" and "0 < C" and "0 < sb" and "sb * sb + cb * cb = 1"
  defines "UB \<equiv> matmul ((0, - 1, 0), (sb, 0, cb), (- cb, 0, sb))
                      ((A, 0, - (C * cb)), (0, Bq, 0), (0, 0, C * sb))"
  shows "det UB \<noteq> 0"
    and "mat_vec (inv_m UB) (0, y, z) = (y / (sb * A), 0, (z + cb * y / sb) / C)"
proof -
  have "det ((0, - 1, 0), (sb, 0, cb), (- cb, 0, sb)) = sb * sb + cb * cb"
    by simp
  then have "det UB = A * Bq * (C * sb)"
    by (simp add: UB_def det_matmul assms(5) del: det.simps matmul.simps) simp
  then show d: "det UB \<noteq> 0"
    using assms(1-4) by simp
  define h where "h = y / (sb * A)"
  define w where "w = z + cb * y / sb"
  define l where "l = w / C"
  have Ah: "A * h = y / sb" and Cl: "C * l = w"
    using assms(1,3,4) by (simp_all add: h_def l_def)
  have "mat_vec ((A, 0, - (C * cb)), (0, Bq, 0), (0, 0, C * sb)) (h, 0, l)
      = (A * h - cb * (C * l), 0, sb * (C * l))"
    by (simp add: algebra_simps)
  then have b: "mat_vec ((A, 0, - (C * cb)), (0, Bq, 0), (0, 0, C * sb)) (h, 0, l)
      = (y / sb - cb * (z + cb * y / sb), 0, sb * (z + cb * y / sb))"
    by (simp only: Ah Cl w_def)
  have y: "sb * (y / sb - cb * (z + cb * y / sb)) + cb * (sb * (z + cb * y / sb)) = y"
    using assms(4) by (simp add: algebra_simps)
  have "sb * (sb * (z + cb * y / sb)) - cb * (y / sb - cb * (z + cb * y / sb))
      = (sb * sb + cb * cb) * (z + cb * y / sb) - cb * y / sb"
    by (simp add: algebra_simps)
  also have "\<dots> = z"
    by (simp add: assms(5))
  finally have z: "sb * (sb * (z + cb * y / sb)) - cb * (y / sb - cb * (z + cb * y / sb)) = z" .
  have "mat_vec UB (h, 0, l) = (0, y, z)"
    unfolding UB_def mat_vec_matmul b using y z by (simp add: algebra_simps)
  with d have "mat_vec (inv_m UB) (0, y, z) = (h, 0, l)"
    by (rule solve_by_inverse)
  then show "mat_vec (inv_m UB) (0, y, z) = (y / (sb * A), 0, (z + cb * y / sb) / C)"
    by (simp only: h_def l_def w_def)
qed

lemma angles2cart_chi_90:
  assumes "lam \<noteq> 0"
  shows "angles2cart tth th 90 0 lam =
     Ok (0, 4 * pi * sin_deg (tth / 2) * sin_deg (th - tth / 2) / lam,
            4 * pi * sin_deg (tth / 2) * cos_deg (th - tth / 2) / lam)"
  using assms by (simp add: angles2cart_def unit_vector_def Let_def)


lemma sin_deg_add: "sin_deg (x + y) = sin_deg x * cos_deg y + cos_deg x * sin_deg y"
proof -
  have "(x + y) * pi / 180 = x * pi / 180 + y * pi / 180"
    by (simp add: algebra_simps)
  then show ?thesis
    by (simp only: sin_deg_def cos_deg_def sin_add)
qed

lemma monoclinic_indexing:
  assumes "0 < a" and "0 < b" and "0 < c" and "0 < lam"
      and "0 < sin_deg beta" and "0 < sin_deg (tth1 / 2)" and "0 < sin_deg (tth2 / 2)"
      and "th1 - tth1 / 2 = 0" and "sin_deg (th2 - tth2 / 2) < 0"
  shows "\<exists>rc B invUB.
      reciprocal_cell lu (a, b, c, 90, beta, 90) = Ok rc
    \<and> B_matrix rc 90 c = Ok B
    \<and> get_invUB lu (tth1, th1, 90, 0) (0, 0, 4) (tth2, th2, 90, 0) (- 1, 0, 5) B lam = Ok invUB
    \<and> get_HKL (tth1, th1, 90, 0) invUB lam
        = Ok (0, 0, 2 * c * sin_deg (tth1 / 2) * sin_deg beta / lam)
    \<and> get_HKL (tth2, th2, 90, 0) invUB lam
        = Ok (2 * a * sin_deg (tth2 / 2) * sin_deg (th2 - tth2 / 2) / lam, 0,
              2 * c * sin_deg (tth2 / 2) * sin_deg (beta + (th2 - tth2 / 2)) / lam)"
proof -
  define sb cb where "sb = sin_deg beta" and "cb = cos_deg beta"
  define s1 s2 sw cw where "s1 = sin_deg (tth1 / 2)" and "s2 = sin_deg (tth2 / 2)"
    and "sw = sin_deg (th2 - tth2 / 2)" and "cw = cos_deg (th2 - tth2 / 2)"
  define A Bq C where "A = 2 * pi / (a * sb)" and "Bq = 2 * pi / b" and "C = 2 * pi / (c * sb)"
  define d y z where "d = 4 * pi * s1 / lam" and "y = 4 * pi * s2 * sw / lam"
    and "z = 4 * pi * s2 * cw / lam"
  let ?rc = "(A, Bq, C, 90, arccos (- cb) * 180 / pi, 90)"
  let ?B = "((A, 0, - (C * cb)), (0, Bq, 0), (0, 0, C * sb))"
  let ?U = "((0, - 1, 0), (sb, 0, cb), (- cb, 0, sb))"
  let ?p1 = "(tth1, th1, 90, 0)" and ?p2 = "(tth2, th2, 90, 0)"
  have sb: "0 < sb" and s1: "0 < s1" and s2: "0 < s2" and sw: "sw < 0"
    using assms(5,6,7,9) by (simp_all add: sb_def s1_def s2_def sw_def)
  have one: "sb * sb + cb * cb = 1"
    using sin_deg_cos_deg_squares [of beta] by (simp add: sb_def cb_def power2_eq_square)
  have pos: "0 < A" "0 < Bq" "0 < C"
    using assms(1,2,3) sb by (simp_all add: A_def Bq_def C_def)
  have lam: "lam \<noteq> 0"
    using assms(4) by simp
  have rc: "reciprocal_cell lu (a, b, c, 90, beta, 90) = Ok ?rc"
    unfolding A_def Bq_def C_def sb_def cb_def using assms(1,2,3,5) by (rule monoclinic_reciprocal)
  have "2 * pi / c = C * sb"
    using assms(3) sb by (simp add: C_def)
  then have B: "B_matrix ?rc 90 c = Ok ?B"
    using assms(3) monoclinic_B [of c A Bq C beta] by (simp add: cb_def)
  have "angles2cart_at ?p1 lam =
      Ok (0, 4 * pi * sin_deg (tth1 / 2) * sin_deg (th1 - tth1 / 2) / lam,
             4 * pi * sin_deg (tth1 / 2) * cos_deg (th1 - tth1 / 2) / lam)"
    using lam by (simp add: angles2cart_chi_90)
  then have q1: "angles2cart_at ?p1 lam = Ok (0, 0, d)"
    unfolding assms(8) by (simp add: d_def s1_def)
  have q2: "angles2cart_at ?p2 lam = Ok (0, y, z)"
    using lam by (simp add: angles2cart_chi_90 y_def z_def s2_def sw_def cw_def)
  have d: "0 < d"
    using s1 assms(4) by (simp add: d_def)
  have y: "y < 0"
    using s2 sw assms(4) by (simp add: y_def divide_neg_pos mult_pos_neg)
  have U: "get_U ?p1 (0, 0, 4) ?p2 (- 1, 0, 5) ?B lam = Ok ?U"
    using pos(1,3) sb one q1 q2 d y by (rule monoclinic_U)
  note ub = monoclinic_UB [OF pos sb one]
  have inv: "get_invUB lu ?p1 (0, 0, 4) ?p2 (- 1, 0, 5) ?B lam = Ok (inv_m (matmul ?U ?B))"
    unfolding get_invUB_def U and_then_Ok using ub(1) by (rule np_linalg_inv_Ok)
  have "get_HKL ?p1 (inv_m (matmul ?U ?B)) lam = Ok (mat_vec (inv_m (matmul ?U ?B)) (0, 0, d))"
    unfolding get_HKL_def q1 by simp
  also have "mat_vec (inv_m (matmul ?U ?B)) (0, 0, d) = (0, 0, d / C)"
    unfolding ub(2) by simp
  also have "d / C = 2 * c * s1 * sb / lam"
    using lam assms(3) sb by (simp add: d_def C_def)
  finally have h1: "get_HKL ?p1 (inv_m (matmul ?U ?B)) lam = Ok (0, 0, 2 * c * s1 * sb / lam)" .
  have "get_HKL ?p2 (inv_m (matmul ?U ?B)) lam = Ok (mat_vec (inv_m (matmul ?U ?B)) (0, y, z))"
    unfolding get_HKL_def q2 by simp
  also have "mat_vec (inv_m (matmul ?U ?B)) (0, y, z) = (y / (sb * A), 0, (z + cb * y / sb) / C)"
    by (rule ub(2))
  also have "y / (sb * A) = 2 * a * s2 * sw / lam"
    using lam assms(1) sb by (simp add: y_def A_def)
  also have "(z + cb * y / sb) / C = 2 * c * s2 * (sb * cw + cb * sw) / lam"
    using lam assms(3) sb by (simp add: y_def z_def C_def field_simps)
  also have "sb * cw + cb * sw = sin_deg (beta + (th2 - tth2 / 2))"
    by (simp only: sin_deg_add sb_def cb_def sw_def cw_def)
  finally have h2: "get_HKL ?p2 (inv_m (matmul ?U ?B)) lam
      = Ok (2 * a * s2 * sw / lam, 0, 2 * c * s2 * sin_deg (beta + (th2 - tth2 / 2)) / lam)" .
  from rc B inv h1 h2 show ?thesis
    unfolding sb_def s1_def s2_def sw_def by blast
qed


lemma sin_deg_between:
  assumes "0 \<le> t" and "lo \<le> t * 3.141588 / 180" and "t * 3.1416 / 180 \<le> hi"
      and "0 \<le> lo" and "hi \<le> 1"
  shows "sin_poly lo - lo ^ 9 / 362880 \<le> sin_deg t"
    and "sin_deg t \<le> sin_poly hi + hi ^ 9 / 362880"
proof -
  have "t * 3.141588 \<le> t * pi"
    by (rule mult_left_mono) (use pi_lower assms(1) in simp_all)
  moreover have "t * pi \<le> t * 3.1416"
    by (rule mult_left_mono) (use pi_upper assms(1) in simp_all)
  ultimately have "t * 3.141588 / 180 \<le> t * pi / 180" and "t * pi / 180 \<le> t * 3.1416 / 180"
    by (simp_all only: divide_right_mono zero_le_numeral)
  then have lo: "lo \<le> t * pi / 180" and hi: "t * pi / 180 \<le> hi"
    using assms(2,3) by linarith+
  show "sin_poly lo - lo ^ 9 / 362880 \<le> sin_deg t"
    unfolding sin_deg_def using assms(4) lo hi assms(5) by (rule sin_between(1))
  show "sin_deg t \<le> sin_poly hi + hi ^ 9 / 362880"
    unfolding sin_deg_def using assms(4) lo hi assms(5) by (rule sin_between(2))
qed

lemma sin_deg_22:
  shows "0.38073 \<le> sin_deg 22.379" and "sin_deg 22.379 \<le> 0.38074"
proof -
  note b = sin_deg_between [of "22.379" "0.3905866" "0.3905882"]
  have "(0.38073 :: real) \<le> sin_poly 0.3905866 - 0.3905866 ^ 9 / 362880"
    by (simp add: sin_poly_def power_divide)
  also have "\<dots> \<le> sin_deg 22.379"
    by (rule b(1)) simp_all
  finally show "0.38073 \<le> sin_deg 22.379" .
  have "sin_deg 22.379 \<le> sin_poly 0.3905882 + 0.3905882 ^ 9 / 362880"
    by (rule b(2)) simp_all
  also have "\<dots> \<le> 0.38074"
    by (simp add: sin_poly_def power_divide)
  finally show "sin_deg 22.379 \<le> 0.38074" .
qed

lemma sin_deg_27:
  shows "0.46807 \<le> sin_deg 27.90925" and "sin_deg 27.90925 \<le> 0.46808"
proof -
  note b = sin_deg_between [of "27.90925" "0.4871075" "0.4871095"]
  have "(0.46807 :: real) \<le> sin_poly 0.4871075 - 0.4871075 ^ 9 / 362880"
    by (simp add: sin_poly_def power_divide)
  also have "\<dots> \<le> sin_deg 27.90925"
    by (rule b(1)) simp_all
  finally show "0.46807 \<le> sin_deg 27.90925" .
  have "sin_deg 27.90925 \<le> sin_poly 0.4871095 + 0.4871095 ^ 9 / 362880"
    by (rule b(2)) simp_all
  also have "\<dots> \<le> 0.46808"
    by (simp add: sin_poly_def power_divide)
  finally show "sin_deg 27.90925 \<le> 0.46808" .
qed

lemma sin_deg_13:
  shows "0.22790 \<le> sin_deg 13.17375" and "sin_deg 13.17375 \<le> 0.22791"
proof -
  note b = sin_deg_between [of "13.17375" "0.2299249" "0.2299259"]
  have "(0.22790 :: real) \<le> sin_poly 0.2299249 - 0.2299249 ^ 9 / 362880"
    by (simp add: sin_poly_def power_divide)
  also have "\<dots> \<le> sin_deg 13.17375"
    by (rule b(1)) simp_all
  finally show "0.22790 \<le> sin_deg 13.17375" .
  have "sin_deg 13.17375 \<le> sin_poly 0.2299259 + 0.2299259 ^ 9 / 362880"
    by (rule b(2)) simp_all
  also have "\<dots> \<le> 0.22791"
    by (simp add: sin_poly_def power_divide)
  finally show "sin_deg 13.17375 \<le> 0.22791" .
qed

lemma sin_deg_5:
  shows "0.09323 \<le> sin_deg 5.35" and "sin_deg 5.35 \<le> 0.09324"
proof -
  note b = sin_deg_between [of "5.35" "0.0933749" "0.0933754"]
  have "(0.09323 :: real) \<le> sin_poly 0.0933749 - 0.0933749 ^ 9 / 362880"
    by (simp add: sin_poly_def power_divide)
  also have "\<dots> \<le> sin_deg 5.35"
    by (rule b(1)) simp_all
  finally show "0.09323 \<le> sin_deg 5.35" .
  have "sin_deg 5.35 \<le> sin_poly 0.0933754 + 0.0933754 ^ 9 / 362880"
    by (rule b(2)) simp_all
  also have "\<dots> \<le> 0.09324"
    by (simp add: sin_poly_def power_divide)
  finally show "sin_deg 5.35 \<le> 0.09324" .
qed

lemma sin_deg_1:
  shows "0.02158 \<le> sin_deg 1.236875" and "sin_deg 1.236875 \<le> 0.02159"
proof -
  note b = sin_deg_between [of "1.236875" "0.0215875" "0.0215876"]
  have "(0.02158 :: real) \<le> sin_poly 0.0215875 - 0.0215875 ^ 9 / 362880"
    by (simp add: sin_poly_def power_divide)
  also have "\<dots> \<le> sin_deg 1.236875"
    by (rule b(1)) simp_all
  finally show "0.02158 \<le> sin_deg 1.236875" .
  have "sin_deg 1.236875 \<le> sin_poly 0.0215876 + 0.0215876 ^ 9 / 362880"
    by (rule b(2)) simp_all
  also have "\<dots> \<le> 0.02159"
    by (simp add: sin_poly_def power_divide)
  finally show "sin_deg 1.236875 \<le> 0.02159" .
qed


lemma sin_deg_about_90:
  shows "sin_deg (90 + 2 * x) = 1 - 2 * (sin_deg x)\<^sup>2"
    and "sin_deg (90 - 2 * x) = 1 - 2 * (sin_deg x)\<^sup>2"
proof -
  have "(90 + 2 * x) * pi / 180 = pi / 2 + 2 * (x * pi / 180)"
    and "(90 - 2 * x) * pi / 180 = pi / 2 - 2 * (x * pi / 180)"
    by (simp_all add: field_simps)
  then show "sin_deg (90 + 2 * x) = 1 - 2 * (sin_deg x)\<^sup>2"
    and "sin_deg (90 - 2 * x) = 1 - 2 * (sin_deg x)\<^sup>2"
    by (simp_all only: sin_deg_def sin_add sin_diff sin_pi_half cos_pi_half cos_double_sin)
      simp_all
qed

lemma product_between:
  fixes x y :: real
  assumes "lx \<le> x" "x \<le> ux" "ly \<le> y" "y \<le> uy" "0 \<le> lx" "0 \<le> ly"
  shows "lx * ly \<le> x * y" and "x * y \<le> ux * uy"
  using assms by (auto intro!: mult_mono)

lemma sin_deg_100:
  shows "0.98261 \<le> sin_deg 100.7" and "sin_deg 100.7 \<le> 0.98262"
proof -
  have e: "sin_deg 100.7 = 1 - 2 * (sin_deg 5.35 * sin_deg 5.35)"
    using sin_deg_about_90(1) [of "5.35"] by (simp add: power2_eq_square)
  note p = product_between [OF sin_deg_5 sin_deg_5]
  have "sin_deg 5.35 * sin_deg 5.35 \<le> 0.09324 * 0.09324"
    by (rule p(2)) simp_all
  then show "0.98261 \<le> sin_deg 100.7"
    unfolding e by simp
  have "0.09323 * 0.09323 \<le> sin_deg 5.35 * sin_deg 5.35"
    by (rule p(1)) simp_all
  then show "sin_deg 100.7 \<le> 0.98262"
    unfolding e by simp
qed

lemma sin_deg_87:
  shows "0.99906 \<le> sin_deg 87.52625" and "sin_deg 87.52625 \<le> 0.99907"
proof -
  have e: "sin_deg 87.52625 = 1 - 2 * (sin_deg 1.236875 * sin_deg 1.236875)"
    using sin_deg_about_90(2) [of "1.236875"] by (simp add: power2_eq_square)
  note p = product_between [OF sin_deg_1 sin_deg_1]
  have "sin_deg 1.236875 * sin_deg 1.236875 \<le> 0.02159 * 0.02159"
    by (rule p(2)) simp_all
  then show "0.99906 \<le> sin_deg 87.52625"
    unfolding e by simp
  have "0.02158 * 0.02158 \<le> sin_deg 1.236875 * sin_deg 1.236875"
    by (rule p(1)) simp_all
  then show "sin_deg 87.52625 \<le> 0.99907"
    unfolding e by simp
qed

text \<open>
  Claim C1. For the example cell \<open>a = 5.811\<close>, \<open>b = 10.07\<close>, \<open>c = 6.628\<close>, \<open>alpha = 90\<close>,
  \<open>beta = 100.7\<close>, \<open>gamma = 90\<close> and the wavelength \<open>lam = 1.2398\<close>, after \<open>B\<close>, \<open>U\<close>, \<open>UB\<close>
  and \<open>invUB\<close> are built from \<open>position_1 = (44.7580, 22.3790, 90.0000, 0)\<close> assigned
  \<open>(0, 0, 4)\<close> and \<open>position_2 = (55.8185, 14.7355, 90.0000, 0)\<close> assigned \<open>(-1, 0, 5)\<close>,
  \<open>get_HKL\<close> at \<open>position_1\<close> returns \<open>(0, 0, 4)\<close> and at \<open>position_2\<close> returns
  \<open>(-1, 0, 5)\<close>, each component within \<open>1e-3\<close>.
\<close>

theorem C1_example_reflections:
  "\<exists>rc B invUB h1 k1 l1 h2 k2 l2.
      reciprocal_cell lu (5.811, 10.07, 6.628, 90, 100.7, 90) = Ok rc
    \<and> B_matrix rc 90 6.628 = Ok B
    \<and> get_invUB lu (44.7580, 22.3790, 90, 0) (0, 0, 4) (55.8185, 14.7355, 90, 0) (- 1, 0, 5)
          B (12398 / 10000) = Ok invUB
    \<and> get_HKL (44.7580, 22.3790, 90, 0) invUB (12398 / 10000) = Ok (h1, k1, l1)
    \<and> \<bar>h1 - 0\<bar> \<le> 1 / 1000 \<and> \<bar>k1 - 0\<bar> \<le> 1 / 1000 \<and> \<bar>l1 - 4\<bar> \<le> 1 / 1000
    \<and> get_HKL (55.8185, 14.7355, 90, 0) invUB (12398 / 10000) = Ok (h2, k2, l2)
    \<and> \<bar>h2 - (- 1)\<bar> \<le> 1 / 1000 \<and> \<bar>k2 - 0\<bar> \<le> 1 / 1000 \<and> \<bar>l2 - 5\<bar> \<le> 1 / 1000"
proof -
  define s1 s2 sw sb s87 where "s1 = sin_deg 22.379" and "s2 = sin_deg 27.90925"
    and "sw = sin_deg 13.17375" and "sb = sin_deg 100.7" and "s87 = sin_deg 87.52625"
  have t1: "(44.7580 :: real) / 2 = 22.379" and t2: "(55.8185 :: real) / 2 = 27.90925"
    and o1: "(22.3790 :: real) - 44.7580 / 2 = 0"
    and o2: "(14.7355 :: real) - 55.8185 / 2 = - 13.17375"
    and o3: "(100.7 :: real) + (14.7355 - 55.8185 / 2) = 87.52625"
    by simp_all
  have neg: "sin_deg (- 13.17375) = - sw"
    by (simp add: sw_def)
  have a1: "sin_deg (44.7580 / 2) = s1"
    by (simp only: t1 s1_def)
  have a2: "sin_deg (55.8185 / 2) = s2"
    by (simp only: t2 s2_def)
  have aw: "sin_deg (14.7355 - 55.8185 / 2) = - sw"
    by (simp only: o2 neg)
  have a87: "sin_deg (100.7 + (14.7355 - 55.8185 / 2)) = s87"
    by (simp only: o3 s87_def)
  have pos: "0 < sb" "0 < s1" "0 < s2" "- sw < 0"
    using sin_deg_100(1) sin_deg_22(1) sin_deg_27(1) sin_deg_13(1)
    by (simp_all add: sb_def s1_def s2_def sw_def)
  have "\<exists>rc B invUB.
      reciprocal_cell lu (5.811, 10.07, 6.628, 90, 100.7, 90) = Ok rc
    \<and> B_matrix rc 90 6.628 = Ok B
    \<and> get_invUB lu (44.7580, 22.3790, 90, 0) (0, 0, 4) (55.8185, 14.7355, 90, 0) (- 1, 0, 5)
          B (12398 / 10000) = Ok invUB
    \<and> get_HKL (44.7580, 22.3790, 90, 0) invUB (12398 / 10000)
        = Ok (0, 0, 2 * 6.628 * sin_deg (44.7580 / 2) * sin_deg 100.7 / (12398 / 10000))
    \<and> get_HKL (55.8185, 14.7355, 90, 0) invUB (12398 / 10000)
        = Ok (2 * 5.811 * sin_deg (55.8185 / 2) * sin_deg (14.7355 - 55.8185 / 2) / (12398 / 10000), 0,
              2 * 6.628 * sin_deg (55.8185 / 2) * sin_deg (100.7 + (14.7355 - 55.8185 / 2))
                / (12398 / 10000))"
  proof (rule monoclinic_indexing)
    show "0 < sin_deg 100.7" "0 < sin_deg (44.7580 / 2)" "0 < sin_deg (55.8185 / 2)"
      "sin_deg (14.7355 - 55.8185 / 2) < 0"
      unfolding a1 a2 aw using pos by (simp_all only: sb_def)
    show "(22.3790 :: real) - 44.7580 / 2 = 0"
      by (rule o1)
  qed simp_all
  then obtain rc B invUB where r: "reciprocal_cell lu (5.811, 10.07, 6.628, 90, 100.7, 90) = Ok rc"
    "B_matrix rc 90 6.628 = Ok B"
    "get_invUB lu (44.7580, 22.3790, 90, 0) (0, 0, 4) (55.8185, 14.7355, 90, 0) (- 1, 0, 5)
          B (12398 / 10000) = Ok invUB"
    and h1: "get_HKL (44.7580, 22.3790, 90, 0) invUB (12398 / 10000)
        = Ok (0, 0, 2 * 6.628 * s1 * sb / (12398 / 10000))"
    and h2: "get_HKL (55.8185, 14.7355, 90, 0) invUB (12398 / 10000)
        = Ok (2 * 5.811 * s2 * (- sw) / (12398 / 10000), 0,
              2 * 6.628 * s2 * s87 / (12398 / 10000))"
    unfolding a1 a2 aw a87 sb_def [symmetric] by blast
  define p1 p2 p3 where "p1 = s1 * sb" and "p2 = s2 * sw" and "p3 = s2 * s87"
  have b1: "0.38073 * 0.98261 \<le> p1" "p1 \<le> 0.38074 * 0.98262"
    unfolding p1_def s1_def sb_def
    by (rule product_between [OF sin_deg_22 sin_deg_100]; simp)+
  have b2: "0.46807 * 0.22790 \<le> p2" "p2 \<le> 0.46808 * 0.22791"
    unfolding p2_def s2_def sw_def
    by (rule product_between [OF sin_deg_27 sin_deg_13]; simp)+
  have b3: "0.46807 * 0.99906 \<le> p3" "p3 \<le> 0.46808 * 0.99907"
    unfolding p3_def s2_def s87_def
    by (rule product_between [OF sin_deg_27 sin_deg_87]; simp)+
  have e1: "2 * 6.628 * s1 * sb / (12398 / 10000) = (132560 / 12398) * p1"
    and e2: "2 * 5.811 * s2 * (- sw) / (12398 / 10000) = - ((116220 / 12398) * p2)"
    and e3: "2 * 6.628 * s2 * s87 / (12398 / 10000) = (132560 / 12398) * p3"
    by (simp_all add: p1_def p2_def p3_def)
  have l1: "\<bar>2 * 6.628 * s1 * sb / (12398 / 10000) - 4\<bar> \<le> 1 / 1000"
    unfolding e1
  proof (rule abs_leI)
    show "132560 / 12398 * p1 - 4 \<le> 1 / 1000"
      using b1 by simp
    show "- (132560 / 12398 * p1 - 4) \<le> 1 / 1000"
      using b1 by simp
  qed
  have h: "\<bar>2 * 5.811 * s2 * (- sw) / (12398 / 10000) - (- 1)\<bar> \<le> 1 / 1000"
    unfolding e2
  proof (rule abs_leI)
    show "- (116220 / 12398 * p2) - (- 1) \<le> 1 / 1000"
      using b2 by simp
    show "- (- (116220 / 12398 * p2) - (- 1)) \<le> 1 / 1000"
      using b2 by simp
  qed
  have l2: "\<bar>2 * 6.628 * s2 * s87 / (12398 / 10000) - 5\<bar> \<le> 1 / 1000"
    unfolding e3
  proof (rule abs_leI)
    show "132560 / 12398 * p3 - 5 \<le> 1 / 1000"
      using b3 by simp
    show "- (132560 / 12398 * p3 - 5) \<le> 1 / 1000"
      using b3 by simp
  qed
  have z: "\<bar>(0 :: real) - 0\<bar> \<le> 1 / 1000"
    by simp
  from r h1 h2 l1 h l2 z show ?thesis
    by blast
qed

end
